theory Spec2Isabelle
  imports Complex_Main "HOL-Library.Multiset"
begin

section \<open>Data model of raspi-tex.c\<close>

text \<open>
  An MMAL buffer header, with the fields that raspi-tex.c reads or writes. The code passes
  headers by pointer; \<open>addr\<close> is that pointer, the identity of the buffer. \<open>data\<close> is the
  opaque handle (0 is NULL), \<open>length_hdr\<close> the byte length (the field \<open>length\<close> of the
  source), \<open>pts\<close> and \<open>dts\<close> the two 64-bit time stamps. Between the one write of this file
  to a header (\<open>buf->dts\<close> in the callback) and the reads of it by the worker no other
  pointer to the header is used, so headers travel by value.
\<close>

record MMAL_BUFFER_HEADER_T =
  addr :: nat
  data :: nat
  length_hdr :: nat
  pts :: int
  dts :: int

text \<open>
  The fields of RASPITEX_STATE that the functions of this file use. Pointers to buffer
  headers are options (None is NULL); \<open>preview_pool\<close> and \<open>preview_queue\<close> are the handles
  of the MMAL pool and queue (0 is NULL), whose contents live in the \<open>world\<close> below;
  \<open>egl_image\<close> is the EGL image handle. The two times are C doubles, taken as reals:
  rounding is not modelled.
\<close>

record RASPITEX_STATE =
  preview_stop :: int
  is_ready :: int
  preview_buf :: "MMAL_BUFFER_HEADER_T option"
  current_buf :: "MMAL_BUFFER_HEADER_T option"
  prev_buff_time :: real
  curr_buff_time :: real
  egl_image :: nat
  preview_pool :: nat
  preview_queue :: nat

definition EGL_NO_IMAGE_KHR :: nat where
  "EGL_NO_IMAGE_KHR = 0"

definition MMAL_SUCCESS :: int where
  "MMAL_SUCCESS = 0"

text \<open>
  What the code does to its collaborators (MMAL, EGL, the scene code, the scheduler), in
  the order it does it. Buffers are named by their address.
\<close>

datatype event =
    Bind nat
  | Release nat
  | Redraw nat
  | Present nat bool
  | Yield
  | Send nat int
  | GlTerm
  | Join
  | PoolDestroy nat
  | QueueDestroy nat
  | NativeWindowDestroy

text \<open>
  The C implementation that the program runs on, as far as lines 282 and 286 depend on it.
  The types of \<open>struct timeval\<close> are not declared in this file: \<open>long_bits\<close> is the width of
  the integer type in which \<open>tv_sec * 1000000 + tv_usec\<close> is computed (32 for the \<open>long\<close> of
  the 32-bit Raspberry Pi, 64 on an LP64 system), and \<open>cast_beyond_int64\<close> is what the
  conversion to int64_t gives for a double outside the range of int64_t, which the C
  standard leaves undefined.
\<close>

record PLATFORM =
  long_bits :: nat
  cast_beyond_int64 :: "int \<Rightarrow> int"

text \<open>
  The state of the program and of the MMAL objects it owns: the RASPITEX_STATE, the
  buffers waiting in \<open>state->preview_queue\<close> (oldest first), the free buffers in
  \<open>state->preview_pool->queue\<close>, the buffers handed to the camera preview port, the
  trace of events so far, and the platform, which no function changes.
\<close>

record world =
  state :: RASPITEX_STATE
  queued :: "MMAL_BUFFER_HEADER_T list"
  pool_free :: "MMAL_BUFFER_HEADER_T list"
  camera_held :: "MMAL_BUFFER_HEADER_T list"
  trace :: "event list"
  platform :: PLATFORM

section \<open>The collaborators\<close>

text \<open>
  Modelled from the spec: \<open>releaseBuffer(buf)\<close> of the camera subsystem
  (mmal_buffer_header_release, not in this file) hands the buffer back to the pool.
\<close>

definition mmal_buffer_header_release :: "MMAL_BUFFER_HEADER_T \<Rightarrow> world \<Rightarrow> world" where
  "mmal_buffer_header_release buf w =
     w\<lparr>pool_free := pool_free w @ [buf], trace := trace w @ [Release (addr buf)]\<rparr>"

text \<open>
  Modelled from the spec: the transfer queue is a FIFO (mmal_queue_put, not in this file,
  appends; mmal_queue_get takes the oldest entry or returns NULL).
\<close>

definition mmal_queue_put :: "MMAL_BUFFER_HEADER_T \<Rightarrow> world \<Rightarrow> world" where
  "mmal_queue_put buf w = w\<lparr>queued := queued w @ [buf]\<rparr>"

text \<open>
  The outcome of the external calls that one call of raspitex_draw makes. The functions are
  not in this file, so their results are parameters: the return code of
  raspitexutil_update_texture and the image handle it leaves in \<open>state->egl_image\<close>, the
  return code of sbpp_redraw, and the result of eglSwapBuffers. They write no other field
  of the modelled state.
\<close>

record draw_ext =
  upd_rc :: int
  upd_image :: nat
  redraw_rc :: int
  swap_ok :: bool

definition raspitexutil_update_texture :: "draw_ext \<Rightarrow> MMAL_BUFFER_HEADER_T \<Rightarrow> world \<Rightarrow> world" where
  "raspitexutil_update_texture x buf w =
     w\<lparr>state := (state w)\<lparr>egl_image := upd_image x\<rparr>, trace := trace w @ [Bind (addr buf)]\<rparr>"

section \<open>raspitex_draw\<close>

definition check_egl_image :: "RASPITEX_STATE \<Rightarrow> int" where
  "check_egl_image s = (if egl_image s = EGL_NO_IMAGE_KHR then - 1 else 0)"

text \<open>
  Line 157: \<open>curr_buff_time *= (1 - 2*(curr_buff_time<0))\<close>, the comparison being 1 or 0.
\<close>

definition sign_correct :: "real \<Rightarrow> real" where
  "sign_correct t = t * real_of_int (1 - 2 * (if t < 0 then 1 else 0))"

text \<open>
  raspitex_draw (lines 120-171). The result is None where the C dereferences NULL:
  with \<open>buf = NULL\<close> and a valid image, line 156 reads \<open>state->current_buf->pts\<close> right after
  line 154 has set \<open>current_buf\<close> to NULL. Otherwise it is the return code and the new world.
\<close>

definition raspitex_draw ::
    "draw_ext \<Rightarrow> MMAL_BUFFER_HEADER_T option \<Rightarrow> world \<Rightarrow> (int \<times> world) option" where
  "raspitex_draw x bo w =
     (case bo of
        None \<Rightarrow> (if check_egl_image (state w) = 0 then None else Some (0, w))
      | Some buf \<Rightarrow>
          (let w1 = (if is_ready (state w) \<noteq> 0 then raspitexutil_update_texture x buf w else w)
           in if is_ready (state w) \<noteq> 0 \<and> upd_rc x \<noteq> 0 then Some (upd_rc x, w1)
              else
                let w2 = (case preview_buf (state w1) of
                            Some p \<Rightarrow> mmal_buffer_header_release p w1
                          | None \<Rightarrow> w1);
                    w3 = w2\<lparr>state := (state w2)\<lparr>preview_buf := Some buf\<rparr>\<rparr>
                in if check_egl_image (state w3) = 0 then
                     let w4 = w3\<lparr>state := (state w3)
                                  \<lparr>current_buf := Some buf,
                                   prev_buff_time := curr_buff_time (state w3),
                                   curr_buff_time := sign_correct (real_of_int (pts buf) / 1000)\<rparr>,
                                trace := trace w3 @ [Redraw (addr buf)]\<rparr>
                     in if redraw_rc x \<noteq> 0 then Some (redraw_rc x, w4)
                        else Some (0, w4\<lparr>trace := trace w4 @ [Present (addr buf) (swap_ok x)]\<rparr>)
                   else Some (0, w3)))"

section \<open>preview_output_cb\<close>

text \<open>The result of gettimeofday.\<close>

record timeval =
  tv_sec :: int
  tv_usec :: int


definition wrap_long :: "nat \<Rightarrow> int \<Rightarrow> int" where
  "wrap_long n x = (x + 2 ^ n div 2) mod 2 ^ n - 2 ^ n div 2"

text \<open>
  The conversion of an integer to double (53 bits of precision, round to nearest, ties to
  even); the result is an integer again. \<open>excess_bits a\<close> is the number of low bits of \<open>a\<close>
  that do not fit.
\<close>

fun excess_bits :: "nat \<Rightarrow> nat" where
  "excess_bits a = (if a < 2 ^ 53 then 0 else Suc (excess_bits (a div 2)))"

definition to_double :: "int \<Rightarrow> int" where
  "to_double x =
     (if \<bar>x\<bar> < 2 ^ 53 then x
      else
        let e = excess_bits (nat \<bar>x\<bar>);
            q = \<bar>x\<bar> div 2 ^ e;
            r = \<bar>x\<bar> mod 2 ^ e;
            q' = (if 2 ^ (e - 1) < r \<or> (r = 2 ^ (e - 1) \<and> odd q) then q + 1 else q)
        in sgn x * (q' * 2 ^ e))"

text \<open>Line 286: the conversion \<open>(int64_t)(f)\<close> of an integral double.\<close>

definition to_int64 :: "PLATFORM \<Rightarrow> int \<Rightarrow> int" where
  "to_int64 pf f = (if - (2 ^ 63) \<le> f \<and> f < 2 ^ 63 then f else cast_beyond_int64 pf f)"

text \<open>
  Lines 282 and 286: \<open>double f = (start.tv_sec) * 1000000 + start.tv_usec\<close>, the product and
  the sum being computed in the integer type of the platform, and \<open>buf->dts = (int64_t)(f)\<close>.
\<close>

definition arrival_stamp :: "PLATFORM \<Rightarrow> timeval \<Rightarrow> int" where
  "arrival_stamp pf start =
     to_int64 pf
       (to_double
         (wrap_long (long_bits pf)
           (wrap_long (long_bits pf) (tv_sec start * 1000000) + tv_usec start)))"

text \<open>preview_output_cb (lines 263-289), called with the time of day it will read.\<close>

definition preview_output_cb :: "timeval \<Rightarrow> MMAL_BUFFER_HEADER_T \<Rightarrow> world \<Rightarrow> world" where
  "preview_output_cb start buf w =
     (if length_hdr buf = 0 then
        mmal_buffer_header_release buf (w\<lparr>state := (state w)\<lparr>preview_stop := 1\<rparr>\<rparr>)
      else if data buf = 0 then
        mmal_buffer_header_release buf w
      else
        mmal_queue_put (buf\<lparr>dts := arrival_stamp (platform w) start\<rparr>) w)"

section \<open>raspitex_stop and raspitex_destroy\<close>

text \<open>
  raspitex_stop (lines 451-459): the new state and the calls made (the join of the worker
  thread is the event \<open>Join\<close>).
\<close>

definition raspitex_stop :: "RASPITEX_STATE \<Rightarrow> RASPITEX_STATE \<times> event list" where
  "raspitex_stop s =
     (if preview_stop s = 0 then (s\<lparr>preview_stop := 1\<rparr>, [Join]) else (s, []))"

text \<open>
  raspitex_destroy (lines 398-416). raspitexutil_destroy_native_window is not in this
  file: it is the parameter \<open>dnw\<close>, a function on the state.
\<close>

definition raspitex_destroy ::
    "(RASPITEX_STATE \<Rightarrow> RASPITEX_STATE) \<Rightarrow> RASPITEX_STATE \<Rightarrow> RASPITEX_STATE \<times> event list" where
  "raspitex_destroy dnw s =
     (let (s1, e1) = (if preview_pool s \<noteq> 0
                      then (s\<lparr>preview_pool := 0\<rparr>, [PoolDestroy (preview_pool s)])
                      else (s, []));
          (s2, e2) = (if preview_queue s1 \<noteq> 0
                      then (s1\<lparr>preview_queue := 0\<rparr>, [QueueDestroy (preview_queue s1)])
                      else (s1, []))
      in if is_ready s2 \<noteq> 0 then (dnw s2, e1 @ e2 @ [NativeWindowDestroy])
         else (s2, e1 @ e2))"

section \<open>The render worker\<close>

text \<open>
  Modelled from the spec: \<open>sendBuffer(port, buf) -> Status\<close> of the camera subsystem
  (mmal_port_send_buffer, not in this file). The status is a parameter; on success the
  camera holds the buffer, on failure the caller still has the pointer.
\<close>

definition mmal_port_send_buffer :: "int \<Rightarrow> MMAL_BUFFER_HEADER_T \<Rightarrow> world \<Rightarrow> world" where
  "mmal_port_send_buffer status buf w =
     w\<lparr>camera_held := (if status = MMAL_SUCCESS then camera_held w @ [buf] else camera_held w),
       trace := trace w @ [Send (addr buf) status]\<rparr>"

text \<open>Line 199: \<open>usleep(0)\<close>, the cooperative yield.\<close>

definition usleep :: "world \<Rightarrow> world" where
  "usleep w = w\<lparr>trace := trace w @ [Yield]\<rparr>"

text \<open>
  Modelled from the spec: \<open>destroyGraphicsContext(state)\<close> (raspitexutil_gl_term, not in
  this file) tears down the GL context; only the call is recorded.
\<close>

definition raspitexutil_gl_term :: "world \<Rightarrow> world" where
  "raspitexutil_gl_term w = w\<lparr>trace := trace w @ [GlTerm]\<rparr>"

text \<open>
  preview_process_returned_bufs (lines 182-203): the loop takes the oldest queued buffer
  until the queue is empty. \<open>dx\<close> gives the outcome of the external calls of the draw of
  each buffer, by the buffer's address. The function returns 0 at line 202, since \<open>rc\<close> is
  nonzero only on the early return of line 196.
\<close>

function preview_process_returned_bufs ::
    "(nat \<Rightarrow> draw_ext) \<Rightarrow> world \<Rightarrow> (int \<times> world) option" where
  "preview_process_returned_bufs dx w =
     (case queued w of
        [] \<Rightarrow> Some (0, w)
      | buf # rest \<Rightarrow>
          (if preview_stop (state w) = 0 then
             (case raspitex_draw (dx (addr buf)) (Some buf) (w\<lparr>queued := rest\<rparr>) of
                None \<Rightarrow> None
              | Some (rc, w1) \<Rightarrow>
                  (if rc \<noteq> 0 then Some (rc, w1\<lparr>state := (state w1)\<lparr>preview_stop := 1\<rparr>\<rparr>)
                   else preview_process_returned_bufs dx (usleep w1)))
           else preview_process_returned_bufs dx (usleep (w\<lparr>queued := rest\<rparr>))))"
  by pat_completeness auto
termination
proof (relation "measure (\<lambda>(dx, w). length (queued w))", goal_cases)
  case 1
  show ?case by simp
next
  case (2 dx w buf rest r rc w1)
  then have "queued w1 = rest"
    by (auto simp: raspitex_draw_def Let_def raspitexutil_update_texture_def
          mmal_buffer_header_release_def split: option.splits if_splits)
  with 2 show ?case by (simp add: usleep_def)
next
  case (3 dx w buf rest)
  then show ?case by (simp add: usleep_def)
qed

text \<open>Lines 231-238: every free buffer of the pool is sent to the camera preview port.\<close>

function send_empty_buffers :: "(nat \<Rightarrow> int) \<Rightarrow> world \<Rightarrow> world" where
  "send_empty_buffers ss w =
     (case pool_free w of
        [] \<Rightarrow> w
      | buf # rest \<Rightarrow>
          send_empty_buffers ss (mmal_port_send_buffer (ss (addr buf)) buf (w\<lparr>pool_free := rest\<rparr>)))"
  by pat_completeness auto
termination
  by (relation "measure (\<lambda>(ss, w). length (pool_free w))")
     (auto simp: mmal_port_send_buffer_def)

text \<open>Lines 249-250: every queued buffer is released.\<close>

function return_all_buffers :: "world \<Rightarrow> world" where
  "return_all_buffers w =
     (case queued w of
        [] \<Rightarrow> w
      | buf # rest \<Rightarrow> return_all_buffers (mmal_buffer_header_release buf (w\<lparr>queued := rest\<rparr>)))"
  by pat_completeness auto
termination
  by (relation "measure (\<lambda>w. length (queued w))")
     (auto simp: mmal_buffer_header_release_def)

text \<open>Lines 247-255, the code after the label \<open>end\<close>.\<close>

definition worker_end :: "world \<Rightarrow> world" where
  "worker_end w = raspitexutil_gl_term (return_all_buffers w)"

text \<open>
  Modelled from the spec: the camera subsystem fills a buffer that it holds and calls the
  producer callback with it. A delivery names the buffer by its position among the
  buffers the camera holds, and gives what the camera wrote into the header and the time
  of day that the callback reads. A delivery of a buffer the camera does not hold does
  not happen.
\<close>

record delivery =
  slot :: nat
  fill_data :: nat
  fill_length :: nat
  fill_pts :: int
  at_time :: timeval

definition camera_return :: "delivery \<Rightarrow> world \<Rightarrow> world" where
  "camera_return d w =
     (if slot d < length (camera_held w) then
        preview_output_cb (at_time d)
          ((camera_held w ! slot d)
             \<lparr>data := fill_data d, length_hdr := fill_length d, pts := fill_pts d\<rparr>)
          (w\<lparr>camera_held := take (slot d) (camera_held w) @ drop (Suc (slot d)) (camera_held w)\<rparr>)
      else w)"

primrec camera_returns :: "delivery list \<Rightarrow> world \<Rightarrow> world" where
  "camera_returns [] w = w"
| "camera_returns (d # ds) w = camera_returns ds (camera_return d w)"

text \<open>
  What the rest of the system does during one iteration of the worker's loop: the status
  of each mmal_port_send_buffer (by buffer address), the frames that the camera delivers
  to the callback, the outcome of the external calls of each draw, and whether the
  controlling thread calls raspitex_stop. The threads are interleaved at this grain: the
  callbacks of an iteration run between the refill and the processing of the queue, and
  raspitex_stop writes the flag at the end of the iteration.
\<close>

record iter_env =
  send_status :: "nat \<Rightarrow> int"
  camera :: "delivery list"
  draw_outcome :: "nat \<Rightarrow> draw_ext"
  stop_request :: bool

text \<open>The body of the loop of preview_worker (lines 230-244), with the environment.\<close>

definition worker_iteration :: "iter_env \<Rightarrow> world \<Rightarrow> world option" where
  "worker_iteration e w =
     (case preview_process_returned_bufs (draw_outcome e)
             (camera_returns (camera e) (send_empty_buffers (send_status e) w)) of
        None \<Rightarrow> None
      | Some (rc, w1) \<Rightarrow>
          Some (let w2 = (if rc \<noteq> 0 then w1\<lparr>state := (state w1)\<lparr>preview_stop := 1\<rparr>\<rparr> else w1)
                in if stop_request e then w2\<lparr>state := fst (raspitex_stop (state w2))\<rparr> else w2))"

text \<open>
  How a run of the worker ends: it has returned (\<open>Exited\<close>), it is still in its loop when
  the given iterations are over (\<open>Running\<close>), or it has dereferenced NULL (\<open>Crashed\<close>).
\<close>

datatype outcome = Exited world | Running world | Crashed

text \<open>The loop of lines 228-245 and the exit path, over the iterations given.\<close>

fun worker_loop :: "iter_env list \<Rightarrow> world \<Rightarrow> outcome" where
  "worker_loop [] w =
     (if preview_stop (state w) = 0 then Running w else Exited (worker_end w))"
| "worker_loop (e # es) w =
     (if preview_stop (state w) = 0 then
        (case worker_iteration e w of
           None \<Rightarrow> Crashed
         | Some w' \<Rightarrow> worker_loop es w')
      else Exited (worker_end w))"

text \<open>
  The return codes of raspitexutil_create_native_window and sbpp_init (not in this file).
\<close>

record init_ext =
  window_rc :: int
  init_rc :: int

text \<open>preview_worker (lines 210-256).\<close>

definition preview_worker :: "init_ext \<Rightarrow> iter_env list \<Rightarrow> world \<Rightarrow> outcome" where
  "preview_worker ie es w =
     (if window_rc ie \<noteq> 0 then Exited (worker_end w)
      else if init_rc ie \<noteq> 0 then Exited (worker_end w)
      else worker_loop es w)"

declare excess_bits.simps [simp del]
declare preview_process_returned_bufs.simps [simp del]
declare send_empty_buffers.simps [simp del]
declare return_all_buffers.simps [simp del]

section \<open>Vocabulary of the properties\<close>

text \<open>The buffer that the worker retains in \<open>state->preview_buf\<close>, as a list.\<close>

definition retained :: "RASPITEX_STATE \<Rightarrow> MMAL_BUFFER_HEADER_T list" where
  "retained s = (case preview_buf s of None \<Rightarrow> [] | Some b \<Rightarrow> [b])"

text \<open>
  The buffers that can still be dequeued, sent or delivered, and the addresses of all
  the buffers that the program or the camera holds.
\<close>

definition reachable_bufs :: "world \<Rightarrow> MMAL_BUFFER_HEADER_T list" where
  "reachable_bufs w = queued w @ pool_free w @ camera_held w"

definition owned :: "world \<Rightarrow> nat list" where
  "owned w = map addr (reachable_bufs w @ retained (state w))"

text \<open>
  The buffer behind the GPU image after a trace: the one of the last \<open>Bind\<close>, if any.
\<close>

fun bound_after :: "nat option \<Rightarrow> event list \<Rightarrow> nat option" where
  "bound_after c [] = c"
| "bound_after c (Bind a # es) = bound_after (Some a) es"
| "bound_after c (e # es) = bound_after c es"

text \<open>
  The deferred-release protocol as a check of a trace, \<open>c\<close> being the buffer behind the
  image: a buffer is never released while it is the one behind the image, and a frame that
  is presented is the one behind the image (if any buffer has been bound at all).
\<close>

fun p1_ok :: "nat option \<Rightarrow> event list \<Rightarrow> bool" where
  "p1_ok c [] = True"
| "p1_ok c (Bind a # es) = p1_ok (Some a) es"
| "p1_ok c (Release a # es) = (c \<noteq> Some a \<and> p1_ok c es)"
| "p1_ok c (Present a ok # es) = ((c = None \<or> c = Some a) \<and> p1_ok c es)"
| "p1_ok c (e # es) = p1_ok c es"

text \<open>
  The invariant behind the protocol: no buffer is in two places, the trace so far obeys
  the protocol, the buffer behind the image can no longer be dequeued or delivered, and
  nothing is bound while \<open>is_ready\<close> is 0.
\<close>

definition good :: "world \<Rightarrow> bool" where
  "good w \<longleftrightarrow>
     distinct (owned w) \<and> p1_ok None (trace w) \<and>
     (\<forall>a. bound_after None (trace w) = Some a \<longrightarrow> a \<notin> set (map addr (reachable_bufs w))) \<and>
     (is_ready (state w) = 0 \<longrightarrow> bound_after None (trace w) = None)"

text \<open>Events that bind and present nothing and release only buffers of the set \<open>A\<close>.\<close>

fun harmless :: "nat set \<Rightarrow> event \<Rightarrow> bool" where
  "harmless A (Release a) = (a \<in> A)"
| "harmless A (Bind a) = False"
| "harmless A (Present a ok) = False"
| "harmless A e = True"

text \<open>The events of lines 152-163 for the buffer at address \<open>a\<close>.\<close>

definition draw_events :: "nat \<Rightarrow> event list \<Rightarrow> bool" where
  "draw_events a ds \<longleftrightarrow> ds = [] \<or> ds = [Redraw a] \<or> (\<exists>ok. ds = [Redraw a, Present a ok])"

text \<open>
  The frame reaches the drawing code of lines 154-162: the texture update, if made, has
  succeeded, and there is a valid image.
\<close>

definition frame_drawn :: "draw_ext \<Rightarrow> world \<Rightarrow> bool" where
  "frame_drawn x w =
     (if is_ready (state w) \<noteq> 0 then upd_rc x = 0 \<and> upd_image x \<noteq> EGL_NO_IMAGE_KHR
      else egl_image (state w) \<noteq> EGL_NO_IMAGE_KHR)"

text \<open>
  The draw of a frame fails: the texture update is made and returns a non-zero code, or
  the frame reaches the drawing code and sbpp_redraw returns a non-zero code.
\<close>

definition draw_fails :: "draw_ext \<Rightarrow> world \<Rightarrow> bool" where
  "draw_fails x w \<longleftrightarrow>
     (is_ready (state w) \<noteq> 0 \<and> upd_rc x \<noteq> 0) \<or> (frame_drawn x w \<and> redraw_rc x \<noteq> 0)"

text \<open>The time from the previous frame to the current one, as the state holds them.\<close>

definition frame_interval :: "RASPITEX_STATE \<Rightarrow> real" where
  "frame_interval s = curr_buff_time s - prev_buff_time s"



text \<open>The pool holds \<open>capacity\<close> buffers again and the transfer queue is empty.\<close>

definition pool_restored :: "nat \<Rightarrow> world \<Rightarrow> bool" where
  "pool_restored capacity w \<longleftrightarrow> length (pool_free w) = capacity \<and> queued w = []"

fun exited :: "outcome \<Rightarrow> bool" where
  "exited (Exited w) = True"
| "exited (Running w) = False"
| "exited Crashed = False"

fun outcome_world :: "outcome \<Rightarrow> world option" where
  "outcome_world (Exited w) = Some w"
| "outcome_world (Running w) = Some w"
| "outcome_world Crashed = None"

text \<open>A result of raspitex_draw without the trace: the code, the state and the buffers.\<close>

definition sans_trace ::
    "(int \<times> world) option \<Rightarrow>
     (int \<times> RASPITEX_STATE \<times> MMAL_BUFFER_HEADER_T list \<times> MMAL_BUFFER_HEADER_T list
       \<times> MMAL_BUFFER_HEADER_T list) option" where
  "sans_trace r = map_option (\<lambda>(rc, w). (rc, state w, queued w, pool_free w, camera_held w)) r"

definition final_state :: "(int \<times> world) option \<Rightarrow> RASPITEX_STATE option" where
  "final_state r = map_option (state \<circ> snd) r"

section \<open>Example runs\<close>

text \<open>
  A free buffer of the pool and a filled frame; the state after raspitex_set_defaults and
  a successful raspitex_configure_preview_port, with the window ready; a world whose pool
  holds the given buffers.
\<close>

definition buffer_at :: "nat \<Rightarrow> MMAL_BUFFER_HEADER_T" where
  "buffer_at a = \<lparr>addr = a, data = 0, length_hdr = 0, pts = 0, dts = 0\<rparr>"

definition frame :: "nat \<Rightarrow> int \<Rightarrow> MMAL_BUFFER_HEADER_T" where
  "frame a t = \<lparr>addr = a, data = 64 + a, length_hdr = 4, pts = t, dts = 0\<rparr>"

definition ready_state :: RASPITEX_STATE where
  "ready_state = \<lparr>preview_stop = 0, is_ready = 1, preview_buf = None, current_buf = None,
     prev_buff_time = 0, curr_buff_time = 0, egl_image = EGL_NO_IMAGE_KHR,
     preview_pool = 1, preview_queue = 2\<rparr>"

definition lp64 :: PLATFORM where
  "lp64 = \<lparr>long_bits = 64, cast_beyond_int64 = (\<lambda>f. - (2 ^ 63))\<rparr>"

definition ilp32 :: PLATFORM where
  "ilp32 = \<lparr>long_bits = 32, cast_beyond_int64 = (\<lambda>f. - (2 ^ 63))\<rparr>"

definition start_world :: "MMAL_BUFFER_HEADER_T list \<Rightarrow> world" where
  "start_world bs = \<lparr>state = ready_state, queued = [], pool_free = bs, camera_held = [],
     trace = [], platform = lp64\<rparr>"

definition two_buffers :: world where
  "two_buffers = start_world [buffer_at 1, buffer_at 2]"

definition three_frames :: world where
  "three_frames = (start_world [])\<lparr>queued := [frame 1 1000, frame 2 2000, frame 3 1500]\<rparr>"

definition noon :: timeval where
  "noon = \<lparr>tv_sec = 43200, tv_usec = 250\<rparr>"

text \<open>Outcomes of the external calls: all succeed, the bind fails, the present fails.\<close>

definition draw_fine :: draw_ext where
  "draw_fine = \<lparr>upd_rc = 0, upd_image = 1, redraw_rc = 0, swap_ok = True\<rparr>"

definition all_fine :: "nat \<Rightarrow> draw_ext" where
  "all_fine a = draw_fine"

definition bind_fails :: "nat \<Rightarrow> draw_ext" where
  "bind_fails a = draw_fine\<lparr>upd_rc := - 1\<rparr>"

definition redraw_fails :: "nat \<Rightarrow> draw_ext" where
  "redraw_fails a = draw_fine\<lparr>redraw_rc := - 2\<rparr>"

definition swap_fails :: "nat \<Rightarrow> draw_ext" where
  "swap_fails a = draw_fine\<lparr>swap_ok := False\<rparr>"

definition init_fine :: init_ext where
  "init_fine = \<lparr>window_rc = 0, init_rc = 0\<rparr>"

definition all_sent :: "nat \<Rightarrow> int" where
  "all_sent a = MMAL_SUCCESS"

text \<open>
  The camera returns the buffer at position \<open>i\<close>, filled with a frame of time stamp \<open>t\<close>;
  an iteration in which nothing arrives and nobody asks to stop.
\<close>

definition deliver :: "nat \<Rightarrow> int \<Rightarrow> delivery" where
  "deliver i t = \<lparr>slot = i, fill_data = 77, fill_length = 4096, fill_pts = t, at_time = noon\<rparr>"

definition idle_iteration :: iter_env where
  "idle_iteration = \<lparr>send_status = all_sent, camera = [], draw_outcome = all_fine, stop_request = False\<rparr>"

text \<open>
  Two frames drawn; the bind of the second frame fails; raspitex_stop during the first
  iteration; the present of the first frame fails; three iterations with nothing to do.
\<close>

definition steady_run :: outcome where
  "steady_run = preview_worker init_fine
     [idle_iteration\<lparr>camera := [deliver 0 1000]\<rparr>, idle_iteration\<lparr>camera := [deliver 0 2000]\<rparr>]
     two_buffers"

definition failed_bind_run :: outcome where
  "failed_bind_run = preview_worker init_fine
     [idle_iteration\<lparr>camera := [deliver 0 1000]\<rparr>,
      idle_iteration\<lparr>camera := [deliver 0 2000], draw_outcome := bind_fails\<rparr>]
     two_buffers"

definition stopped_run :: outcome where
  "stopped_run = preview_worker init_fine [idle_iteration\<lparr>stop_request := True\<rparr>] two_buffers"

definition failed_present_run :: outcome where
  "failed_present_run = preview_worker init_fine
     [idle_iteration\<lparr>camera := [deliver 0 1000], draw_outcome := swap_fails\<rparr>] two_buffers"

definition idle_run :: outcome where
  "idle_run = preview_worker init_fine [idle_iteration, idle_iteration, idle_iteration] two_buffers"

section \<open>Unfolding the model\<close>

text \<open>
  The definitions of the examples and of the model, for evaluating runs, and the loops
  of the worker unfolded by one step.
\<close>

lemmas example_defs = buffer_at_def frame_def ready_state_def start_world_def noon_def draw_fine_def
  all_fine_def init_fine_def all_sent_def deliver_def idle_iteration_def bind_fails_def swap_fails_def
  redraw_fails_def lp64_def ilp32_def MMAL_SUCCESS_def EGL_NO_IMAGE_KHR_def

lemmas scenario_defs = two_buffers_def steady_run_def failed_bind_run_def stopped_run_def
  failed_present_run_def idle_run_def three_frames_def final_state_def

lemmas run_defs = preview_worker_def worker_iteration_def camera_return_def preview_output_cb_def
  mmal_queue_put_def mmal_buffer_header_release_def mmal_port_send_buffer_def usleep_def
  raspitexutil_update_texture_def raspitexutil_gl_term_def worker_end_def raspitex_draw_def
  check_egl_image_def sign_correct_def arrival_stamp_def wrap_long_def to_double_def to_int64_def
  raspitex_stop_def Let_def

lemma process_Nil:
  "queued w = [] \<Longrightarrow> preview_process_returned_bufs dx w = Some (0, w)"
  by (subst preview_process_returned_bufs.simps) simp

lemma process_Cons:
  "queued w = buf # rest \<Longrightarrow> preview_process_returned_bufs dx w =
     (if preview_stop (state w) = 0 then
             (case raspitex_draw (dx (addr buf)) (Some buf) (w\<lparr>queued := rest\<rparr>) of
                None \<Rightarrow> None
              | Some (rc, w1) \<Rightarrow>
                  (if rc \<noteq> 0 then Some (rc, w1\<lparr>state := (state w1)\<lparr>preview_stop := 1\<rparr>\<rparr>)
                   else preview_process_returned_bufs dx (usleep w1)))
           else preview_process_returned_bufs dx (usleep (w\<lparr>queued := rest\<rparr>)))"
  by (subst preview_process_returned_bufs.simps) simp

lemma send_Nil: "pool_free w = [] \<Longrightarrow> send_empty_buffers ss w = w"
  by (subst send_empty_buffers.simps) simp

lemma send_Cons:
  "pool_free w = buf # rest \<Longrightarrow> send_empty_buffers ss w =
     send_empty_buffers ss (mmal_port_send_buffer (ss (addr buf)) buf (w\<lparr>pool_free := rest\<rparr>))"
  by (subst send_empty_buffers.simps) simp

lemma return_Nil: "queued w = [] \<Longrightarrow> return_all_buffers w = w"
  by (subst return_all_buffers.simps) simp

lemma return_Cons:
  "queued w = buf # rest \<Longrightarrow> return_all_buffers w =
     return_all_buffers (mmal_buffer_header_release buf (w\<lparr>queued := rest\<rparr>))"
  by (subst return_all_buffers.simps) simp

lemmas loop_eqs = process_Nil process_Cons send_Nil send_Cons return_Nil return_Cons

section \<open>What the functions do\<close>

text \<open>
  The effect of one call of raspitex_draw and of the loops on the buffers and on the
  trace; an induction rule that follows the loop of preview_process_returned_bufs.
\<close>

lemma raspitex_draw_Some: "\<exists>rc w'. raspitex_draw x (Some buf) w = Some (rc, w')"
  by (simp add: raspitex_draw_def Let_def)

lemma raspitex_draw_failed_bind:
  assumes "is_ready (state w) \<noteq> 0" and "upd_rc x \<noteq> 0"
  shows "raspitex_draw x (Some buf) w = Some (upd_rc x, raspitexutil_update_texture x buf w)"
  using assms by (simp add: raspitex_draw_def)

lemma raspitex_draw_effect:
  assumes "raspitex_draw x (Some buf) w = Some (rc, w1)"
    and "\<not> (is_ready (state w) \<noteq> 0 \<and> upd_rc x \<noteq> 0)"
  shows "queued w1 = queued w \<and> camera_held w1 = camera_held w
       \<and> is_ready (state w1) = is_ready (state w)
       \<and> preview_stop (state w1) = preview_stop (state w)
       \<and> pool_free w1 = pool_free w @ retained (state w)
       \<and> preview_buf (state w1) = Some buf
       \<and> egl_image (state w1) =
             (if is_ready (state w) \<noteq> 0 then upd_image x else egl_image (state w))
       \<and> (\<exists>ds. draw_events (addr buf) ds \<and>
             trace w1 = trace w @ (if is_ready (state w) \<noteq> 0 then [Bind (addr buf)] else [])
                        @ map (\<lambda>b. Release (addr b)) (retained (state w)) @ ds)"
  using assms
  by (cases "preview_buf (state w)"; cases "is_ready (state w) = 0"; cases "redraw_rc x = 0";
      cases "egl_image (state w) = EGL_NO_IMAGE_KHR"; cases "upd_image x = EGL_NO_IMAGE_KHR")
     (clarsimp simp: raspitex_draw_def Let_def retained_def draw_events_def check_egl_image_def
        raspitexutil_update_texture_def mmal_buffer_header_release_def)+

lemma raspitex_draw_queued:
  "raspitex_draw x (Some buf) w = Some (rc, w') \<Longrightarrow> queued w' = queued w"
  using raspitex_draw_effect [of x buf w rc w'] raspitex_draw_failed_bind [of w x buf]
  by (cases "is_ready (state w) \<noteq> 0 \<and> upd_rc x \<noteq> 0")
     (auto simp: raspitexutil_update_texture_def)

lemma raspitex_draw_rc:
  assumes "raspitex_draw x (Some buf) w = Some (r, w1)" and "r \<noteq> 0"
  shows "r = upd_rc x \<or> r = redraw_rc x"
  using assms
  by (cases "is_ready (state w) = 0"; cases "upd_rc x = 0"; cases "redraw_rc x = 0")
     (auto simp: raspitex_draw_def Let_def split: if_splits)

lemma raspitex_draw_yields:
  assumes "raspitex_draw x (Some buf) w = Some (rc, w1)"
  shows "count_list (trace w1) Yield = count_list (trace w) Yield"
proof (cases "is_ready (state w) \<noteq> 0 \<and> upd_rc x \<noteq> 0")
  case True
  with assms raspitex_draw_failed_bind [of w x buf] show ?thesis
    by (auto simp: raspitexutil_update_texture_def)
next
  case False
  from raspitex_draw_effect [OF assms False] show ?thesis
    by (auto simp: draw_events_def retained_def split: option.splits)
qed

lemma raspitex_draw_releases_retained:
  assumes "raspitex_draw x (Some buf) w = Some (rc, w')"
  shows "\<exists>evs. trace w' = trace w @ evs \<and>
           (\<forall>a. Release a \<in> set evs \<longrightarrow> (\<exists>p. preview_buf (state w) = Some p \<and> a = addr p))"
proof (cases "is_ready (state w) \<noteq> 0 \<and> upd_rc x \<noteq> 0")
  case True
  with assms raspitex_draw_failed_bind [of w x buf]
  have "trace w' = trace w @ [Bind (addr buf)]"
    by (auto simp: raspitexutil_update_texture_def)
  then show ?thesis by simp
next
  case False
  from raspitex_draw_effect [OF assms False]
  obtain ds where ds: "draw_events (addr buf) ds"
    and t: "trace w' = trace w @ (if is_ready (state w) \<noteq> 0 then [Bind (addr buf)] else [])
                        @ map (\<lambda>b. Release (addr b)) (retained (state w)) @ ds"
    by blast
  have "\<forall>a. Release a \<in> set ((if is_ready (state w) \<noteq> 0 then [Bind (addr buf)] else [])
                        @ map (\<lambda>b. Release (addr b)) (retained (state w)) @ ds) \<longrightarrow>
          (\<exists>p. preview_buf (state w) = Some p \<and> a = addr p)"
    using ds by (cases "preview_buf (state w)") (auto simp: draw_events_def retained_def)
  with t show ?thesis by blast
qed

lemma sign_correct_abs: "sign_correct t = \<bar>t\<bar>"
  by (simp add: sign_correct_def)





lemma to_double_ties_to_even:
  "to_double (2 ^ 53 + 1) = 2 ^ 53 \<and> to_double (2 ^ 53 + 3) = 2 ^ 53 + 4
   \<and> to_double (- (2 ^ 54 + 6)) = - (2 ^ 54 + 8)"
  by (simp add: to_double_def Let_def excess_bits.simps)

lemma failed_update_code:
  "is_ready (state w) \<noteq> 0 \<Longrightarrow> upd_rc x \<noteq> 0 \<Longrightarrow>
   map_option fst (raspitex_draw x (Some buf) w) = Some (upd_rc x)"
  by (simp add: raspitex_draw_failed_bind)

lemma failed_redraw_code:
  assumes "frame_drawn x w" and "redraw_rc x \<noteq> 0"
  shows "map_option fst (raspitex_draw x (Some buf) w) = Some (redraw_rc x)"
  using assms
  by (cases "preview_buf (state w)"; cases "is_ready (state w) = 0")
     (simp_all add: frame_drawn_def raspitex_draw_def Let_def check_egl_image_def
        raspitexutil_update_texture_def mmal_buffer_header_release_def)

lemma draw_fails_code:
  assumes "draw_fails x w" and "raspitex_draw x (Some buf) w = Some (rc, w1)"
  shows "rc \<noteq> 0"
proof -
  from assms(1) consider "is_ready (state w) \<noteq> 0 \<and> upd_rc x \<noteq> 0" | "frame_drawn x w \<and> redraw_rc x \<noteq> 0"
    by (auto simp: draw_fails_def)
  then show ?thesis
  proof cases
    case 1
    with failed_update_code [of w x buf] assms(2) show ?thesis by simp
  next
    case 2
    with failed_redraw_code [of x w buf] assms(2) show ?thesis by simp
  qed
qed

lemma draw_fails_state:
  "is_ready (state w') = is_ready (state w) \<Longrightarrow>
   (is_ready (state w) = 0 \<longrightarrow> egl_image (state w') = egl_image (state w)) \<Longrightarrow>
   draw_fails x w' = draw_fails x w"
  by (auto simp: draw_fails_def frame_drawn_def)

lemma send_effect:
  "state (send_empty_buffers ss w) = state w \<and> queued (send_empty_buffers ss w) = queued w
   \<and> pool_free (send_empty_buffers ss w) = []
   \<and> trace (send_empty_buffers ss w) = trace w @ map (\<lambda>b. Send (addr b) (ss (addr b))) (pool_free w)"
proof (induction ss w rule: send_empty_buffers.induct)
  case (1 ss w)
  show ?case
  proof (cases "pool_free w")
    case Nil
    then show ?thesis by (simp add: send_empty_buffers.simps)
  next
    case (Cons buf rest)
    with "1.IH" [OF Cons] show ?thesis
      by (simp add: send_empty_buffers.simps [of ss w] mmal_port_send_buffer_def)
  qed
qed

lemma return_all_effect:
  "state (return_all_buffers w) = state w \<and> queued (return_all_buffers w) = []
   \<and> pool_free (return_all_buffers w) = pool_free w @ queued w
   \<and> camera_held (return_all_buffers w) = camera_held w
   \<and> trace (return_all_buffers w) = trace w @ map (\<lambda>b. Release (addr b)) (queued w)"
proof (induction w rule: return_all_buffers.induct)
  case (1 w)
  show ?case
  proof (cases "queued w")
    case Nil
    then show ?thesis by (simp add: return_all_buffers.simps)
  next
    case (Cons buf rest)
    with "1.IH" [OF Cons] show ?thesis
      by (simp add: return_all_buffers.simps [of w] mmal_buffer_header_release_def)
  qed
qed

lemma worker_end_effect:
  "state (worker_end w) = state w \<and> queued (worker_end w) = []
   \<and> pool_free (worker_end w) = pool_free w @ queued w
   \<and> camera_held (worker_end w) = camera_held w
   \<and> trace (worker_end w) = trace w @ map (\<lambda>b. Release (addr b)) (queued w) @ [GlTerm]"
  using return_all_effect [of w] by (simp add: worker_end_def raspitexutil_gl_term_def)

lemma process_Some: "\<exists>rc w'. preview_process_returned_bufs dx w = Some (rc, w')"
proof (induction dx w rule: preview_process_returned_bufs.induct)
  case (1 dx w)
  show ?case
  proof (cases "queued w")
    case Nil
    then show ?thesis by (simp add: preview_process_returned_bufs.simps)
  next
    case (Cons buf rest)
    obtain r w1 where d: "raspitex_draw (dx (addr buf)) (Some buf) (w\<lparr>queued := rest\<rparr>) = Some (r, w1)"
      using raspitex_draw_Some by blast
    show ?thesis
      using Cons d "1.IH"(1) [OF Cons _ d refl] "1.IH"(2) [OF Cons]
      by (subst preview_process_returned_bufs.simps) auto
  qed
qed

lemma worker_iteration_Some: "\<exists>w'. worker_iteration e w = Some w'"
  using process_Some [of "draw_outcome e" "camera_returns (camera e) (send_empty_buffers (send_status e) w)"]
  by (auto simp: worker_iteration_def)

lemma worker_loop_stopped:
  "preview_stop (state w) \<noteq> 0 \<Longrightarrow> worker_loop es w = Exited (worker_end w)"
  by (cases es) simp_all

lemma worker_loop_Exited: "worker_loop es w = Exited w' \<Longrightarrow> \<exists>w1. w' = worker_end w1"
proof (induction es arbitrary: w)
  case Nil
  then show ?case by (auto split: if_splits)
next
  case (Cons e es)
  then show ?case by (auto split: if_splits option.splits)
qed

lemma preview_worker_Exited: "preview_worker ie es w = Exited w' \<Longrightarrow> \<exists>w1. w' = worker_end w1"
  using worker_loop_Exited [of es w w'] by (auto simp: preview_worker_def split: if_splits)

lemma worker_loop_not_Crashed: "worker_loop es w \<noteq> Crashed"
proof (induction es arbitrary: w)
  case Nil
  show ?case by simp
next
  case (Cons e es)
  obtain w1 where "worker_iteration e w = Some w1" using worker_iteration_Some by blast
  with Cons show ?case by simp
qed

lemma process_induct [consumes 1, case_names Empty Failed Drawn Skipped]:
  assumes run: "preview_process_returned_bufs dx w = Some (rc, w')"
    and empty: "\<And>w. queued w = [] \<Longrightarrow> P w 0 w"
    and failed: "\<And>w buf rest r w1. queued w = buf # rest \<Longrightarrow> preview_stop (state w) = 0 \<Longrightarrow>
        raspitex_draw (dx (addr buf)) (Some buf) (w\<lparr>queued := rest\<rparr>) = Some (r, w1) \<Longrightarrow> r \<noteq> 0 \<Longrightarrow>
        P w r (w1\<lparr>state := (state w1)\<lparr>preview_stop := 1\<rparr>\<rparr>)"
    and drawn: "\<And>w buf rest w1 rc w'. queued w = buf # rest \<Longrightarrow> preview_stop (state w) = 0 \<Longrightarrow>
        raspitex_draw (dx (addr buf)) (Some buf) (w\<lparr>queued := rest\<rparr>) = Some (0, w1) \<Longrightarrow>
        preview_process_returned_bufs dx (usleep w1) = Some (rc, w') \<Longrightarrow>
        P (usleep w1) rc w' \<Longrightarrow> P w rc w'"
    and skipped: "\<And>w buf rest rc w'. queued w = buf # rest \<Longrightarrow> preview_stop (state w) \<noteq> 0 \<Longrightarrow>
        preview_process_returned_bufs dx (usleep (w\<lparr>queued := rest\<rparr>)) = Some (rc, w') \<Longrightarrow>
        P (usleep (w\<lparr>queued := rest\<rparr>)) rc w' \<Longrightarrow> P w rc w'"
  shows "P w rc w'"
  using run
proof (induction w rule: measure_induct_rule [where f = "\<lambda>w. length (queued w)"])
  case (less w)
  note run = less.prems
  show ?case
  proof (cases "queued w")
    case Nil
    with run empty [OF Nil] show ?thesis by (simp add: preview_process_returned_bufs.simps)
  next
    case (Cons buf rest)
    show ?thesis
    proof (cases "preview_stop (state w) = 0")
      case True
      obtain r w1 where d: "raspitex_draw (dx (addr buf)) (Some buf) (w\<lparr>queued := rest\<rparr>) = Some (r, w1)"
        using raspitex_draw_Some by blast
      have shorter: "length (queued (usleep w1)) < length (queued w)"
        using raspitex_draw_queued [OF d] Cons by (simp add: usleep_def)
      show ?thesis
      proof (cases "r = 0")
        case r0: True
        have next_run: "preview_process_returned_bufs dx (usleep w1) = Some (rc, w')"
          using run Cons True d r0
          by (subst (asm) preview_process_returned_bufs.simps) simp
        from d r0 have d0: "raspitex_draw (dx (addr buf)) (Some buf) (w\<lparr>queued := rest\<rparr>) = Some (0, w1)"
          by simp
        show ?thesis
          by (rule drawn [OF Cons True d0 next_run]) (rule less.IH [OF shorter next_run])
      next
        case False
        have "rc = r \<and> w' = w1\<lparr>state := (state w1)\<lparr>preview_stop := 1\<rparr>\<rparr>"
          using run Cons True d False
          by (subst (asm) preview_process_returned_bufs.simps) simp
        with failed [OF Cons True d False] show ?thesis by simp
      qed
    next
      case False
      have next_run: "preview_process_returned_bufs dx (usleep (w\<lparr>queued := rest\<rparr>)) = Some (rc, w')"
        using run Cons False
        by (subst (asm) preview_process_returned_bufs.simps) simp
      have shorter: "length (queued (usleep (w\<lparr>queued := rest\<rparr>))) < length (queued w)"
        using Cons by (simp add: usleep_def)
      show ?thesis
        by (rule skipped [OF Cons False next_run]) (rule less.IH [OF shorter next_run])
    qed
  qed
qed

lemma process_failure:
  assumes "preview_process_returned_bufs dx w = Some (rc, w')"
  shows "rc \<noteq> 0 \<longrightarrow> preview_stop (state w') = 1 \<and>
           (\<exists>b\<in>set (queued w). rc = upd_rc (dx (addr b)) \<or> rc = redraw_rc (dx (addr b)))"
  using assms
proof (induction rule: process_induct)
  case (Empty w)
  show ?case by simp
next
  case (Failed w buf rest r w1)
  from raspitex_draw_rc [OF Failed(3,4)] Failed(1) show ?case by simp
next
  case (Drawn w buf rest w1 rc w')
  from Drawn(5) raspitex_draw_queued [OF Drawn(3)] Drawn(1) show ?case
    by (auto simp: usleep_def)
next
  case (Skipped w buf rest rc w')
  then show ?case by (auto simp: usleep_def)
qed

lemma swap_result_unused:
  "sans_trace (raspitex_draw (x\<lparr>swap_ok := s\<rparr>) bo w) = sans_trace (raspitex_draw x bo w)"
proof (cases bo)
  case None
  then show ?thesis by (simp add: raspitex_draw_def sans_trace_def)
next
  case (Some buf)
  then show ?thesis
    by (cases "is_ready (state w) = 0"; cases "upd_rc x = 0"; cases "redraw_rc x = 0";
        cases "preview_buf (state w)")
       (simp_all add: raspitex_draw_def sans_trace_def Let_def raspitexutil_update_texture_def
          mmal_buffer_header_release_def check_egl_image_def)
qed

lemma stop_flag_already_set:
  "preview_stop (state w) = 1 \<Longrightarrow> w\<lparr>state := (state w)\<lparr>preview_stop := 1\<rparr>\<rparr> = w"
proof -
  assume a: "preview_stop (state w) = 1"
  have "(state w)\<lparr>preview_stop := preview_stop (state w)\<rparr> = state w" by simp
  with a have "(state w)\<lparr>preview_stop := 1\<rparr> = state w" by simp
  then show ?thesis by simp
qed

lemma failed_iteration_exits:
  assumes running: "preview_stop (state w) = 0"
    and p: "preview_process_returned_bufs (draw_outcome e)
              (camera_returns (camera e) (send_empty_buffers (send_status e) w)) = Some (rc, w1)"
    and rc: "rc \<noteq> 0"
  shows "worker_loop (e # es) w = Exited (worker_end w1)"
proof -
  have s: "preview_stop (state w1) = 1" using process_failure [OF p] rc by simp
  have "worker_iteration e w = Some w1"
    using p rc s by (simp add: worker_iteration_def Let_def raspitex_stop_def stop_flag_already_set)
  with running s show ?thesis by (simp add: worker_loop_stopped)
qed

lemma process_must_fail:
  assumes "preview_stop (state w) = 0" and "b \<in> set (queued w)" and "draw_fails (dx (addr b)) w"
  shows "\<exists>rc w'. preview_process_returned_bufs dx w = Some (rc, w') \<and> rc \<noteq> 0"
  using assms
proof (induction w rule: measure_induct_rule [where f = "\<lambda>w. length (queued w)"])
  case (less w)
  from less.prems(2) obtain buf rest where q: "queued w = buf # rest"
    by (cases "queued w") auto
  obtain r w1 where d: "raspitex_draw (dx (addr buf)) (Some buf) (w\<lparr>queued := rest\<rparr>) = Some (r, w1)"
    using raspitex_draw_Some by blast
  show ?case
  proof (cases "r = 0")
    case False
    with q d less.prems(1) show ?thesis by (simp add: process_Cons)
  next
    case True
    have same: "draw_fails y (w\<lparr>queued := rest\<rparr>) = draw_fails y w" for y
      by (rule draw_fails_state) simp_all
    have "b \<noteq> buf"
    proof
      assume "b = buf"
      with less.prems(3) same have "draw_fails (dx (addr buf)) (w\<lparr>queued := rest\<rparr>)" by simp
      from draw_fails_code [OF this d] True show False by simp
    qed
    with less.prems(2) q have b: "b \<in> set rest" by simp
    have nb: "\<not> (is_ready (state (w\<lparr>queued := rest\<rparr>)) \<noteq> 0 \<and> upd_rc (dx (addr buf)) \<noteq> 0)"
    proof
      assume "is_ready (state (w\<lparr>queued := rest\<rparr>)) \<noteq> 0 \<and> upd_rc (dx (addr buf)) \<noteq> 0"
      with raspitex_draw_failed_bind [of "w\<lparr>queued := rest\<rparr>" "dx (addr buf)" buf] d True
      show False by simp
    qed
    note e = raspitex_draw_effect [OF d nb]
    have q1: "queued (usleep w1) = rest" using e by (simp add: usleep_def)
    have s1: "preview_stop (state (usleep w1)) = 0" using e less.prems(1) by (simp add: usleep_def)
    have "draw_fails (dx (addr b)) (usleep w1) = draw_fails (dx (addr b)) w"
      by (rule draw_fails_state) (use e in \<open>simp_all add: usleep_def\<close>)
    with less.prems(3) have f1: "draw_fails (dx (addr b)) (usleep w1)" by simp
    have "length (queued (usleep w1)) < length (queued w)" using q q1 by simp
    from less.IH [OF this s1 _ f1] b q1
    obtain rc w' where "preview_process_returned_bufs dx (usleep w1) = Some (rc, w') \<and> rc \<noteq> 0"
      by auto
    with q d True less.prems(1) show ?thesis by (simp add: process_Cons)
  qed
qed

lemma failing_frame_stops_worker:
  assumes "preview_stop (state w) = 0"
    and "preview_stop (state (camera_returns (camera e) (send_empty_buffers (send_status e) w))) = 0"
    and "b \<in> set (queued (camera_returns (camera e) (send_empty_buffers (send_status e) w)))"
    and "draw_fails (draw_outcome e (addr b))
           (camera_returns (camera e) (send_empty_buffers (send_status e) w))"
  shows "\<exists>rc w1. preview_process_returned_bufs (draw_outcome e)
             (camera_returns (camera e) (send_empty_buffers (send_status e) w)) = Some (rc, w1)
           \<and> rc \<noteq> 0 \<and> preview_stop (state w1) = 1
           \<and> worker_loop (e # es) w = Exited (worker_end w1)"
proof -
  from process_must_fail [where dx = "draw_outcome e", OF assms(2,3,4)]
  obtain rc w1 where p: "preview_process_returned_bufs (draw_outcome e)
             (camera_returns (camera e) (send_empty_buffers (send_status e) w)) = Some (rc, w1)"
    and rc: "rc \<noteq> 0" by blast
  from process_failure [OF p] rc have "preview_stop (state w1) = 1" by simp
  with p rc failed_iteration_exits [OF assms(1) p rc, of es] show ?thesis by blast
qed

lemma process_yields:
  assumes "preview_process_returned_bufs dx w = Some (rc, w')"
  shows "count_list (trace w') Yield + (if rc = 0 then 0 else 1) + length (queued w') =
         count_list (trace w) Yield + length (queued w)"
  using assms
proof (induction rule: process_induct)
  case (Empty w)
  show ?case by simp
next
  case (Failed w buf rest r w1)
  from raspitex_draw_yields [OF Failed(3)] raspitex_draw_queued [OF Failed(3)] Failed(1,4)
  show ?case by simp
next
  case (Drawn w buf rest w1 rc w')
  from raspitex_draw_yields [OF Drawn(3)] raspitex_draw_queued [OF Drawn(3)] Drawn(1,5)
  show ?case by (simp add: usleep_def)
next
  case (Skipped w buf rest rc w')
  then show ?case by (simp add: usleep_def)
qed

lemma idle_iteration_no_yield:
  assumes "queued w = []" and "camera e = []" and "worker_iteration e w = Some w2"
  shows "count_list (trace w2) Yield = count_list (trace w) Yield"
proof -
  let ?w1 = "send_empty_buffers (send_status e) w"
  have q: "queued ?w1 = []" using send_effect [of "send_status e" w] assms(1) by simp
  have t: "count_list (trace ?w1) Yield = count_list (trace w) Yield"
    using send_effect [of "send_status e" w] by (simp add: count_list_0_iff image_iff)
  have "trace w2 = trace ?w1"
    using assms(2,3) q
    by (auto simp: worker_iteration_def process_Nil raspitex_stop_def split: if_splits)
  with t show ?thesis by simp
qed

section \<open>The invariant of the deferred release\<close>

text \<open>
  Every step of the worker and of the callback keeps the invariant \<open>good\<close>: steps that
  bind nothing and release only buffers that can still be reached, and the draw itself.
\<close>

lemma bound_after_append: "bound_after c (xs @ ys) = bound_after (bound_after c xs) ys"
  by (induction c xs rule: bound_after.induct) simp_all

lemma p1_ok_append: "p1_ok c (xs @ ys) \<longleftrightarrow> p1_ok c xs \<and> p1_ok (bound_after c xs) ys"
  by (induction c xs rule: p1_ok.induct) simp_all

lemma bound_after_cases:
  "bound_after c evs = c \<or> (\<exists>b. Bind b \<in> set evs \<and> bound_after c evs = Some b)"
proof (induction evs arbitrary: c)
  case Nil
  show ?case by simp
next
  case (Cons e evs)
  show ?case
  proof (cases e)
    case (Bind a)
    with Cons [of "Some a"] show ?thesis by auto
  qed (use Cons [of c] in auto)
qed

lemma bound_after_no_bind: "\<forall>b. Bind b \<notin> set evs \<Longrightarrow> bound_after c evs = c"
  using bound_after_cases [of c evs] by auto

lemma p1_ok_release_after_rebind:
  assumes "p1_ok c (pre @ Bind a # mid @ Release a # post)"
  shows "\<exists>b. b \<noteq> a \<and> Bind b \<in> set mid"
proof -
  from assms have "p1_ok (Some a) (mid @ Release a # post)"
    by (simp add: p1_ok_append)
  then have "bound_after (Some a) mid \<noteq> Some a"
    by (simp add: p1_ok_append)
  with bound_after_cases [of "Some a" mid] show ?thesis by auto
qed

lemma p1_ok_present_of_bound:
  assumes "p1_ok c (pre @ Bind a # mid @ Present a' ok # post)" and "\<forall>b. Bind b \<notin> set mid"
  shows "a' = a"
proof -
  from assms(1) have "p1_ok (Some a) (mid @ Present a' ok # post)"
    by (simp add: p1_ok_append)
  then have "p1_ok (bound_after (Some a) mid) (Present a' ok # post)"
    by (simp add: p1_ok_append)
  with bound_after_no_bind [OF assms(2), of "Some a"] show ?thesis by simp
qed

lemma harmless_bound_after: "\<forall>e\<in>set evs. harmless A e \<Longrightarrow> bound_after c evs = c"
proof (induction evs)
  case Nil
  show ?case by simp
next
  case (Cons e evs)
  then show ?case by (cases e) simp_all
qed

lemma harmless_p1_ok:
  "\<forall>e\<in>set evs. harmless A e \<Longrightarrow> \<forall>a. c = Some a \<longrightarrow> a \<notin> A \<Longrightarrow> p1_ok c evs"
proof (induction evs)
  case Nil
  show ?case by simp
next
  case (Cons e evs)
  then show ?case by (cases e) auto
qed

lemma distinct_mset_subset:
  assumes "mset ys \<subseteq># mset xs" and "distinct xs"
  shows "distinct ys"
proof -
  have "count (mset ys) a = (if a \<in> set ys then 1 else 0)" for a
  proof -
    have "count (mset ys) a \<le> count (mset xs) a"
      using assms(1) by (rule mset_subset_eq_count)
    also have "\<dots> \<le> 1"
      using assms(2) by (simp add: distinct_count_atmost_1)
    finally have le: "count (mset ys) a \<le> 1" .
    show ?thesis
    proof (cases "a \<in> set ys")
      case True
      then have "1 \<le> count (mset ys) a" by (simp add: Suc_le_eq)
      with le have "count (mset ys) a = 1" by linarith
      with True show ?thesis by simp
    next
      case False
      then show ?thesis by simp
    qed
  qed
  then show ?thesis by (simp add: distinct_count_atmost_1)
qed

lemma good_step:
  assumes g: "good w"
    and own: "mset (owned w') \<subseteq># mset (owned w)"
    and reach: "set (map addr (reachable_bufs w')) \<subseteq> set (map addr (reachable_bufs w))"
    and ready: "is_ready (state w') = is_ready (state w)"
    and tr: "trace w' = trace w @ evs"
    and evs: "\<forall>e\<in>set evs. harmless (set (map addr (reachable_bufs w))) e"
  shows "good w'"
proof -
  let ?c = "bound_after None (trace w)"
  have c: "bound_after None (trace w') = ?c"
    using tr harmless_bound_after [OF evs] by (simp add: bound_after_append)
  have free: "\<forall>a. ?c = Some a \<longrightarrow> a \<notin> set (map addr (reachable_bufs w))"
    using g by (simp add: good_def)
  have d: "distinct (owned w')"
    using own g by (auto simp: good_def intro: distinct_mset_subset)
  have p: "p1_ok None (trace w')"
    using g tr harmless_p1_ok [OF evs free] by (simp add: good_def p1_ok_append)
  have j: "\<forall>a. bound_after None (trace w') = Some a \<longrightarrow> a \<notin> set (map addr (reachable_bufs w'))"
    using free reach c by auto
  have k: "is_ready (state w') = 0 \<longrightarrow> bound_after None (trace w') = None"
    using g ready c by (simp add: good_def)
  from d p j k show ?thesis unfolding good_def by blast
qed

lemma good_draw:
  assumes g: "good w" and q: "queued w = buf # rest"
    and d: "raspitex_draw x (Some buf) (w\<lparr>queued := rest\<rparr>) = Some (rc, w1)"
  shows "good w1"
proof (cases "is_ready (state w) \<noteq> 0 \<and> upd_rc x \<noteq> 0")
  case True
  then have "w1 = raspitexutil_update_texture x buf (w\<lparr>queued := rest\<rparr>)"
    using d raspitex_draw_failed_bind [of "w\<lparr>queued := rest\<rparr>" x buf] by simp
  with g q True show ?thesis
    by (auto simp: good_def owned_def reachable_bufs_def retained_def
          raspitexutil_update_texture_def p1_ok_append bound_after_append)
next
  case False
  from raspitex_draw_effect [OF d] False
  obtain ds where e: "queued w1 = rest" "camera_held w1 = camera_held w"
      "is_ready (state w1) = is_ready (state w)"
      "pool_free w1 = pool_free w @ retained (state w)"
      "preview_buf (state w1) = Some buf"
      "draw_events (addr buf) ds"
      "trace w1 = trace w @ (if is_ready (state w) \<noteq> 0 then [Bind (addr buf)] else [])
                        @ map (\<lambda>b. Release (addr b)) (retained (state w)) @ ds"
    by auto
  have ds: "bound_after c ds = c" "p1_ok c ds \<longleftrightarrow> (ds = [] \<or> ds = [Redraw (addr buf)] \<or> c = None \<or> c = Some (addr buf))" for c
    using e(6) by (auto simp: draw_events_def)
  have rel: "bound_after c (map (\<lambda>b. Release (addr b)) (retained (state w))) = c"
       "p1_ok c (map (\<lambda>b. Release (addr b)) (retained (state w))) \<longleftrightarrow>
          (\<forall>b. preview_buf (state w) = Some b \<longrightarrow> c \<noteq> Some (addr b))" for c
    by (auto simp: retained_def split: option.splits)
  show ?thesis
  proof (cases "is_ready (state w) = 0")
    case True
    with g q e show ?thesis
      by (auto simp: good_def owned_def reachable_bufs_def retained_def
          p1_ok_append bound_after_append ds rel split: option.splits)
  next
    case False
    with g q e show ?thesis
      by (auto simp: good_def owned_def reachable_bufs_def retained_def
          p1_ok_append bound_after_append ds rel split: option.splits)
  qed
qed

lemma good_usleep: "good w \<Longrightarrow> good (usleep w)"
  by (rule good_step [where evs = "[Yield]"]) (simp_all add: usleep_def owned_def reachable_bufs_def)

lemma good_stop_flag: "good w \<Longrightarrow> good (w\<lparr>state := (state w)\<lparr>preview_stop := v\<rparr>\<rparr>)"
  by (rule good_step [where evs = "[]"]) (simp_all add: owned_def reachable_bufs_def retained_def)

lemma good_drop_head: "good w \<Longrightarrow> queued w = buf # rest \<Longrightarrow> good (w\<lparr>queued := rest\<rparr>)"
  by (rule good_step [where evs = "[]"]) (auto simp: owned_def reachable_bufs_def)

lemma good_process:
  "good w \<Longrightarrow> preview_process_returned_bufs dx w = Some (rc, w') \<Longrightarrow> good w'"
proof (induction dx w rule: preview_process_returned_bufs.induct)
  case (1 dx w)
  show ?case
  proof (cases "queued w")
    case Nil
    with 1 show ?thesis by (simp add: preview_process_returned_bufs.simps)
  next
    case (Cons buf rest)
    show ?thesis
    proof (cases "preview_stop (state w) = 0")
      case True
      obtain r w1 where d: "raspitex_draw (dx (addr buf)) (Some buf) (w\<lparr>queued := rest\<rparr>) = Some (r, w1)"
        using raspitex_draw_Some by blast
      have g1: "good w1" using good_draw [OF "1.prems"(1) Cons d] .
      show ?thesis
      proof (cases "r = 0")
        case True
        have "preview_process_returned_bufs dx (usleep w1) = Some (rc, w')"
          using "1.prems"(2) Cons \<open>preview_stop (state w) = 0\<close> d True
          by (subst (asm) preview_process_returned_bufs.simps) simp
        with "1.IH"(1) [OF Cons \<open>preview_stop (state w) = 0\<close> d refl] True g1 show ?thesis
          by (simp add: good_usleep)
      next
        case False
        have "w' = w1\<lparr>state := (state w1)\<lparr>preview_stop := 1\<rparr>\<rparr>"
          using "1.prems"(2) Cons \<open>preview_stop (state w) = 0\<close> d False
          by (subst (asm) preview_process_returned_bufs.simps) simp
        with g1 show ?thesis by (simp add: good_stop_flag)
      qed
    next
      case False
      have "preview_process_returned_bufs dx (usleep (w\<lparr>queued := rest\<rparr>)) = Some (rc, w')"
        using "1.prems"(2) Cons False
        by (subst (asm) preview_process_returned_bufs.simps) simp
      with "1.IH"(2) [OF Cons False] good_usleep [OF good_drop_head [OF "1.prems"(1) Cons]]
      show ?thesis by simp
    qed
  qed
qed

lemma good_send_step:
  "good w \<Longrightarrow> pool_free w = buf # rest \<Longrightarrow>
   good (mmal_port_send_buffer status buf (w\<lparr>pool_free := rest\<rparr>))"
  by (rule good_step [where evs = "[Send (addr buf) status]"])
     (auto simp: owned_def reachable_bufs_def mmal_port_send_buffer_def)

lemma good_send: "good w \<Longrightarrow> good (send_empty_buffers ss w)"
proof (induction ss w rule: send_empty_buffers.induct)
  case (1 ss w)
  show ?case
  proof (cases "pool_free w")
    case Nil
    with 1 show ?thesis by (simp add: send_empty_buffers.simps)
  next
    case (Cons buf rest)
    with "1.IH" [OF Cons] good_send_step [OF "1.prems" Cons] show ?thesis
      by (simp add: send_empty_buffers.simps [of ss w])
  qed
qed

lemma good_return_step:
  "good w \<Longrightarrow> queued w = buf # rest \<Longrightarrow>
   good (mmal_buffer_header_release buf (w\<lparr>queued := rest\<rparr>))"
  by (rule good_step [where evs = "[Release (addr buf)]"])
     (auto simp: owned_def reachable_bufs_def mmal_buffer_header_release_def)

lemma good_return_all: "good w \<Longrightarrow> good (return_all_buffers w)"
proof (induction w rule: return_all_buffers.induct)
  case (1 w)
  show ?case
  proof (cases "queued w")
    case Nil
    with 1 show ?thesis by (simp add: return_all_buffers.simps)
  next
    case (Cons buf rest)
    with "1.IH" [OF Cons] good_return_step [OF "1.prems" Cons] show ?thesis
      by (simp add: return_all_buffers.simps [of w])
  qed
qed

lemma good_worker_end: "good w \<Longrightarrow> good (worker_end w)"
  unfolding worker_end_def
  by (rule good_step [OF good_return_all, where evs = "[GlTerm]"])
     (simp_all add: raspitexutil_gl_term_def owned_def reachable_bufs_def)

lemma good_callback:
  assumes "good w" and "camera_held w = pre @ b # post" and "addr buf = addr b"
  shows "good (preview_output_cb start buf (w\<lparr>camera_held := pre @ post\<rparr>))"
proof (rule good_step [OF assms(1),
    where evs = "if length_hdr buf = 0 \<or> data buf = 0 then [Release (addr buf)] else []"])
  show "mset (owned (preview_output_cb start buf (w\<lparr>camera_held := pre @ post\<rparr>))) \<subseteq># mset (owned w)"
    using assms(2,3)
    by (simp add: owned_def reachable_bufs_def preview_output_cb_def retained_def
          mmal_buffer_header_release_def mmal_queue_put_def)
  show "set (map addr (reachable_bufs (preview_output_cb start buf (w\<lparr>camera_held := pre @ post\<rparr>))))
        \<subseteq> set (map addr (reachable_bufs w))"
    using assms(2,3)
    by (auto simp: reachable_bufs_def preview_output_cb_def
          mmal_buffer_header_release_def mmal_queue_put_def)
  show "is_ready (state (preview_output_cb start buf (w\<lparr>camera_held := pre @ post\<rparr>))) = is_ready (state w)"
    by (simp add: preview_output_cb_def mmal_buffer_header_release_def mmal_queue_put_def)
  show "trace (preview_output_cb start buf (w\<lparr>camera_held := pre @ post\<rparr>)) =
        trace w @ (if length_hdr buf = 0 \<or> data buf = 0 then [Release (addr buf)] else [])"
    by (simp add: preview_output_cb_def mmal_buffer_header_release_def mmal_queue_put_def)
  show "\<forall>e\<in>set (if length_hdr buf = 0 \<or> data buf = 0 then [Release (addr buf)] else []).
          harmless (set (map addr (reachable_bufs w))) e"
    using assms(2,3) by (simp add: reachable_bufs_def)
qed

lemma good_camera_return: "good w \<Longrightarrow> good (camera_return d w)"
proof (cases "slot d < length (camera_held w)")
  case True
  assume g: "good w"
  have split: "camera_held w = take (slot d) (camera_held w) @ (camera_held w ! slot d)
                 # drop (Suc (slot d)) (camera_held w)"
    using True by (rule id_take_nth_drop)
  show ?thesis
    using True good_callback [OF g split, of _ "at_time d"]
    by (simp add: camera_return_def)
next
  case False
  assume "good w"
  with False show ?thesis by (simp add: camera_return_def)
qed

lemma good_camera_returns: "good w \<Longrightarrow> good (camera_returns ds w)"
  by (induction ds arbitrary: w) (simp_all add: good_camera_return)

lemma good_raspitex_stop: "good w \<Longrightarrow> good (w\<lparr>state := fst (raspitex_stop (state w))\<rparr>)"
  by (rule good_step [where evs = "[]"])
     (simp_all add: raspitex_stop_def owned_def reachable_bufs_def retained_def)

lemma good_worker_iteration:
  assumes "good w" and "worker_iteration e w = Some w'"
  shows "good w'"
proof -
  let ?w0 = "camera_returns (camera e) (send_empty_buffers (send_status e) w)"
  have g0: "good ?w0" using assms(1) by (simp add: good_send good_camera_returns)
  from assms(2) obtain rc w1 where p: "preview_process_returned_bufs (draw_outcome e) ?w0 = Some (rc, w1)"
    by (auto simp: worker_iteration_def split: option.splits)
  have g1: "good w1" using good_process [OF g0 p] .
  have "good (if rc \<noteq> 0 then w1\<lparr>state := (state w1)\<lparr>preview_stop := 1\<rparr>\<rparr> else w1)"
    using g1 by (simp add: good_stop_flag)
  with assms(2) p show ?thesis
    by (auto simp: worker_iteration_def Let_def good_raspitex_stop)
qed

lemma good_worker_loop:
  "good w \<Longrightarrow> worker_loop es w = Exited w' \<or> worker_loop es w = Running w' \<Longrightarrow> good w'"
proof (induction es arbitrary: w)
  case Nil
  then show ?case by (auto simp: good_worker_end split: if_splits)
next
  case (Cons e es)
  show ?case
  proof (cases "preview_stop (state w) = 0")
    case True
    obtain w1 where i: "worker_iteration e w = Some w1"
      using worker_iteration_Some by blast
    have "good w1" using good_worker_iteration [OF Cons.prems(1) i] .
    with Cons.IH [of w1] Cons.prems(2) True i show ?thesis by simp
  next
    case False
    with Cons.prems show ?thesis by (auto simp: good_worker_end)
  qed
qed

lemma good_start: "distinct (owned w) \<Longrightarrow> trace w = [] \<Longrightarrow> good w"
  by (simp add: good_def)

lemma good_preview_worker:
  assumes "good w0" and "preview_worker ie es w0 = Exited w \<or> preview_worker ie es w0 = Running w"
  shows "good w"
proof (cases "window_rc ie \<noteq> 0 \<or> init_rc ie \<noteq> 0")
  case True
  with assms(2) have "w = worker_end w0" by (auto simp: preview_worker_def split: if_splits)
  with assms(1) show ?thesis by (simp add: good_worker_end)
next
  case False
  with assms(2) have "worker_loop es w0 = Exited w \<or> worker_loop es w0 = Running w"
    by (simp add: preview_worker_def)
  with assms(1) show ?thesis using good_worker_loop by blast
qed

section \<open>Well-formed frames in the queue\<close>

text \<open>
  Every step keeps the queue and the retained buffer well formed.
\<close>

lemma retained_stop_flag [simp]: "retained (s\<lparr>preview_stop := v\<rparr>) = retained s"
  by (simp add: retained_def)











section \<open>The claims\<close>

subsection \<open>C1: deferred release\<close>

text \<open>
  C1. Deferred-release protocol. The worker starts with every buffer in one place only
  (pool, queue, camera or the retained slot) and an empty trace. Then for every run of
  preview_worker, whatever the camera delivers and whatever the external calls return,
  the worker does not dereference NULL and its trace obeys the protocol: a buffer is not
  released while it is behind the GPU image, so between the bind of a buffer and a later
  release of it the next frame has been bound, and every present shows the buffer bound
  last, hence comes before that next bind. In one call of raspitex_draw, the only buffer
  released is the one found in \<open>state->preview_buf\<close> on entry.
\<close>

theorem deferred_release_protocol:
  assumes "distinct (owned w0)" and "trace w0 = []"
  shows "preview_worker ie es w0 \<noteq> Crashed
       \<and> (preview_worker ie es w0 = Exited w \<or> preview_worker ie es w0 = Running w \<longrightarrow>
            p1_ok None (trace w)
          \<and> (\<forall>pre a mid post. trace w = pre @ Bind a # mid @ Release a # post \<longrightarrow>
                (\<exists>b. b \<noteq> a \<and> Bind b \<in> set mid))
          \<and> (\<forall>pre a mid a' ok post.
                trace w = pre @ Bind a # mid @ Present a' ok # post \<and> (\<forall>b. Bind b \<notin> set mid) \<longrightarrow>
                a' = a))
       \<and> (raspitex_draw x (Some buf) w1 = Some (rc, w2) \<longrightarrow>
            (\<exists>evs. trace w2 = trace w1 @ evs \<and>
               (\<forall>a. Release a \<in> set evs \<longrightarrow> (\<exists>p. preview_buf (state w1) = Some p \<and> a = addr p))))"
proof -
  have total: "preview_worker ie es w0 \<noteq> Crashed"
    by (simp add: preview_worker_def worker_loop_not_Crashed)
  have safe: "p1_ok None (trace w)
          \<and> (\<forall>pre a mid post. trace w = pre @ Bind a # mid @ Release a # post \<longrightarrow>
                (\<exists>b. b \<noteq> a \<and> Bind b \<in> set mid))
          \<and> (\<forall>pre a mid a' ok post.
                trace w = pre @ Bind a # mid @ Present a' ok # post \<and> (\<forall>b. Bind b \<notin> set mid) \<longrightarrow>
                a' = a)"
    if run: "preview_worker ie es w0 = Exited w \<or> preview_worker ie es w0 = Running w"
  proof -
    have "good w" using good_preview_worker [OF good_start [OF assms] run] .
    then have ok: "p1_ok None (trace w)" by (simp add: good_def)
    have rel: "\<exists>b. b \<noteq> a \<and> Bind b \<in> set mid"
      if "trace w = pre @ Bind a # mid @ Release a # post" for pre a mid post
      using ok that p1_ok_release_after_rebind [of None pre a mid post] by simp
    have pres: "a' = a"
      if "trace w = pre @ Bind a # mid @ Present a' ok # post \<and> (\<forall>b. Bind b \<notin> set mid)"
      for pre a mid a' ok post
      using ok that p1_ok_present_of_bound [of None pre a mid a' ok post] by simp
    from ok rel pres show ?thesis by blast
  qed
  from total safe raspitex_draw_releases_retained [of x buf w1 rc w2] show ?thesis by blast
qed

text \<open>
  Witness for C1: the run that draws two frames releases the first buffer after the bind
  of the second.
\<close>

theorem deferred_release_protocol_witness:
  "distinct (owned two_buffers) \<and> trace two_buffers = []
   \<and> steady_run \<noteq> Crashed
   \<and> map_option trace (outcome_world steady_run) =
       Some [Send 1 0, Send 2 0, Bind 1, Redraw 1, Present 1 True, Yield,
             Bind 2, Release 1, Redraw 2, Present 2 True, Yield]
   \<and> map_option (p1_ok None \<circ> trace) (outcome_world steady_run) = Some True
   \<and> (\<exists>b. b \<noteq> 1 \<and> Bind b \<in> set [Redraw 1, Present 1 True, Yield, Bind 2])"
proof -
  let ?es = "[idle_iteration\<lparr>camera := [deliver 0 1000]\<rparr>, idle_iteration\<lparr>camera := [deliver 0 2000]\<rparr>]"
  have h1: "distinct (owned two_buffers)"
    by (simp add: owned_def reachable_bufs_def retained_def scenario_defs example_defs)
  have h2: "trace two_buffers = []"
    by (simp add: scenario_defs example_defs)
  have "\<exists>w. preview_worker init_fine ?es two_buffers = Running w \<and>
          trace w = [Send 1 0, Send 2 0, Bind 1, Redraw 1, Present 1 True, Yield,
             Bind 2, Release 1, Redraw 2, Present 2 True, Yield]"
    by (simp add: scenario_defs example_defs run_defs loop_eqs)
  then obtain w where r: "preview_worker init_fine ?es two_buffers = Running w"
    and t: "trace w = [Send 1 0, Send 2 0, Bind 1, Redraw 1, Present 1 True, Yield,
             Bind 2, Release 1, Redraw 2, Present 2 True, Yield]"
    by blast
  have t': "trace w = [Send 1 0, Send 2 0] @ Bind 1 # [Redraw 1, Present 1 True, Yield, Bind 2]
              @ Release 1 # [Redraw 2, Present 2 True, Yield]"
    using t by simp
  note inst = deferred_release_protocol [OF h1 h2, of init_fine ?es w]
  have nc: "preview_worker init_fine ?es two_buffers \<noteq> Crashed"
    using inst by (rule conjunct1)
  note safe = inst [THEN conjunct2, THEN conjunct1, THEN mp, OF disjI2 [OF r]]
  have ok: "p1_ok None (trace w)"
    using safe by (rule conjunct1)
  have ex: "\<exists>b. b \<noteq> 1 \<and> Bind b \<in> set [Redraw 1, Present 1 True, Yield, Bind 2]"
    using safe [THEN conjunct2, THEN conjunct1, rule_format, OF t'] .
  have run: "steady_run = Running w"
    using r by (simp only: steady_run_def)
  have tr: "map_option trace (outcome_world steady_run) =
       Some [Send 1 0, Send 2 0, Bind 1, Redraw 1, Present 1 True, Yield,
             Bind 2, Release 1, Redraw 2, Present 2 True, Yield]"
    by (simp only: run outcome_world.simps option.map t)
  have p: "map_option (p1_ok None \<circ> trace) (outcome_world steady_run) = Some True"
    using ok by (simp add: run)
  have nc': "steady_run \<noteq> Crashed"
    unfolding steady_run_def by (rule nc)
  from h1 h2 nc' tr p ex show ?thesis by blast
qed

subsection \<open>C2: the failure of a bind\<close>

text \<open>
  C2. No buffer leak on a fatal bind failure: the claim asks that the retained buffer and
  the buffer whose bind failed are both back in the pool when the worker exits. In the run
  below the pool has two buffers, the first frame is drawn and retained, and the bind of
  the second frame fails. The worker exits, but no buffer is ever released: the pool, the
  queue and the camera are empty at the end, and the trace holds no \<open>Release\<close>.
\<close>

theorem bind_failure_leaks_both_buffers:
  "exited failed_bind_run
   \<and> map_option pool_free (outcome_world failed_bind_run) = Some []
   \<and> map_option queued (outcome_world failed_bind_run) = Some []
   \<and> map_option camera_held (outcome_world failed_bind_run) = Some []
   \<and> map_option trace (outcome_world failed_bind_run) =
        Some [Send 1 0, Send 2 0, Bind 1, Redraw 1, Present 1 True, Yield, Bind 2, GlTerm]"
  by (simp add: scenario_defs example_defs run_defs loop_eqs)

subsection \<open>C3: after the worker has stopped\<close>

text \<open>
  Counterexample to C3 (after raspitex_stop returns the pool holds its capacity again):
  the pool has two buffers, the worker sends both to the camera, raspitex_stop is called
  with the flag clear and joins the worker. When the worker has exited the two buffers are
  still with the camera and the pool is empty.
\<close>

theorem stop_leaves_buffers_with_camera:
  "exited stopped_run
   \<and> map_option (pool_restored 2) (outcome_world stopped_run) = Some False
   \<and> map_option pool_free (outcome_world stopped_run) = Some []
   \<and> map_option (map addr \<circ> camera_held) (outcome_world stopped_run) = Some [1, 2]"
  by (simp add: scenario_defs example_defs run_defs loop_eqs pool_restored_def)

text \<open>
  C3, amended. When the worker has exited, the transfer queue is empty: the code after
  the label \<open>end\<close> empties it and releases to the pool every buffer that was waiting
  in it, in order. The buffers that the camera holds stay where they are.
\<close>

theorem worker_exit_drains_queue:
  "(preview_worker ie es w0 = Exited w \<longrightarrow> queued w = [])
   \<and> queued (worker_end w1) = []
   \<and> pool_free (worker_end w1) = pool_free w1 @ queued w1
   \<and> camera_held (worker_end w1) = camera_held w1"
  using preview_worker_Exited [of ie es w0 w] worker_end_effect [of w1]
  by (auto simp: worker_end_effect)

text \<open>
  Witness for C3: the stopped run ends with an empty queue, and the exit path returns
  three waiting frames to the pool.
\<close>

theorem worker_exit_drains_queue_witness:
  "exited stopped_run
   \<and> map_option queued (outcome_world stopped_run) = Some []
   \<and> queued (worker_end three_frames) = []
   \<and> pool_free (worker_end three_frames) = [frame 1 1000, frame 2 2000, frame 3 1500]"
proof -
  let ?es = "[idle_iteration\<lparr>stop_request := True\<rparr>]"
  have "\<exists>w. preview_worker init_fine ?es two_buffers = Exited w"
    by (simp add: scenario_defs example_defs run_defs loop_eqs)
  then obtain w where r: "preview_worker init_fine ?es two_buffers = Exited w"
    by blast
  note inst = worker_exit_drains_queue [of init_fine ?es two_buffers w three_frames]
  have q: "queued w = []"
    using inst [THEN conjunct1, THEN mp, OF r] .
  have e: "queued (worker_end three_frames) = []
      \<and> pool_free (worker_end three_frames) = pool_free three_frames @ queued three_frames"
    using inst by blast
  have run: "stopped_run = Exited w"
    using r by (simp only: stopped_run_def)
  from q e show ?thesis
    by (simp add: run three_frames_def start_world_def)
qed

subsection \<open>C4: malformed frames\<close>

text \<open>
  C4. Malformed-frame handling in preview_output_cb. A buffer of length zero sets the stop
  flag and is released once, without being queued. A buffer of non-zero length with a NULL
  handle is released once, without being queued, and the stop flag is left as it was. Any
  other buffer is queued once, with its \<open>dts\<close> stamped, and not released. (The length is
  tested first, as in the code, so the second case is read for a non-zero length.)
\<close>

theorem malformed_frame_handling:
  assumes "w' = preview_output_cb start buf w"
  shows "(length_hdr buf = 0 \<longrightarrow>
            preview_stop (state w') = 1 \<and> trace w' = trace w @ [Release (addr buf)] \<and>
            pool_free w' = pool_free w @ [buf] \<and> queued w' = queued w)
       \<and> (length_hdr buf \<noteq> 0 \<and> data buf = 0 \<longrightarrow>
            preview_stop (state w') = preview_stop (state w) \<and>
            trace w' = trace w @ [Release (addr buf)] \<and>
            pool_free w' = pool_free w @ [buf] \<and> queued w' = queued w)
       \<and> (length_hdr buf \<noteq> 0 \<and> data buf \<noteq> 0 \<longrightarrow>
            preview_stop (state w') = preview_stop (state w) \<and> trace w' = trace w \<and>
            pool_free w' = pool_free w \<and>
            queued w' = queued w @ [buf\<lparr>dts := arrival_stamp (platform w) start\<rparr>])"
  using assms by (simp add: preview_output_cb_def mmal_buffer_header_release_def mmal_queue_put_def)

text \<open>
Witness for C4: one buffer of each kind.
\<close>

theorem malformed_frame_handling_witness:
  "(length_hdr (buffer_at 1) = 0 \<and>
      preview_stop (state (preview_output_cb noon (buffer_at 1) (start_world []))) = 1 \<and>
      trace (preview_output_cb noon (buffer_at 1) (start_world [])) = [Release 1] \<and>
      pool_free (preview_output_cb noon (buffer_at 1) (start_world [])) = [buffer_at 1])
   \<and> (length_hdr ((frame 2 1000)\<lparr>data := 0\<rparr>) \<noteq> 0 \<and> data ((frame 2 1000)\<lparr>data := 0\<rparr>) = 0 \<and>
      preview_stop (state (preview_output_cb noon ((frame 2 1000)\<lparr>data := 0\<rparr>) (start_world []))) = 0 \<and>
      trace (preview_output_cb noon ((frame 2 1000)\<lparr>data := 0\<rparr>) (start_world [])) = [Release 2] \<and>
      queued (preview_output_cb noon ((frame 2 1000)\<lparr>data := 0\<rparr>) (start_world [])) = [])
   \<and> (length_hdr (frame 3 1000) \<noteq> 0 \<and> data (frame 3 1000) \<noteq> 0 \<and>
      trace (preview_output_cb noon (frame 3 1000) (start_world [])) = [] \<and>
      pool_free (preview_output_cb noon (frame 3 1000) (start_world [])) = [] \<and>
      queued (preview_output_cb noon (frame 3 1000) (start_world [])) = [(frame 3 1000)\<lparr>dts := 43200000250\<rparr>])"
  using malformed_frame_handling [OF refl, of "buffer_at 1" noon "start_world []"]
        malformed_frame_handling [OF refl, of "(frame 2 1000)\<lparr>data := 0\<rparr>" noon "start_world []"]
        malformed_frame_handling [OF refl, of "frame 3 1000" noon "start_world []"]
  by (simp add: buffer_at_def frame_def start_world_def ready_state_def noon_def lp64_def
        arrival_stamp_def wrap_long_def to_double_def to_int64_def)

subsection \<open>C5: failures of the draw and of the present\<close>

text \<open>
  Counterexample to C5 (a failed present stops the worker): the present of the first frame
  fails, and the worker is still in its loop afterwards, with the stop flag clear.
\<close>

theorem failed_present_is_ignored:
  "\<not> exited failed_present_run
   \<and> map_option (preview_stop \<circ> state) (outcome_world failed_present_run) = Some 0
   \<and> map_option trace (outcome_world failed_present_run) =
        Some [Send 1 0, Send 2 0, Bind 1, Redraw 1, Present 1 False, Yield]"
  by (simp add: scenario_defs example_defs run_defs loop_eqs)

text \<open>
  C5, amended. What is fatal is a failure of the texture update or of the redraw. A draw
  whose texture update returns a non-zero code returns that code, and so does a draw that
  reaches sbpp_redraw when sbpp_redraw returns a non-zero code. If the worker is running
  and the queue that it processes holds a frame whose draw fails, the processing returns a
  non-zero code, the stop flag is set, and the worker leaves its loop without another
  iteration; and whenever the processing returns a non-zero code, that code is the return
  code of the update or of the redraw of a queued buffer. The result of eglSwapBuffers is
  not examined: raspitex_draw returns the same code and leaves the same state and buffers
  whether the present succeeds or fails.
\<close>

theorem draw_failure_is_fatal:
  "(preview_stop (state w) = 0 \<and>
    preview_process_returned_bufs (draw_outcome e)
      (camera_returns (camera e) (send_empty_buffers (send_status e) w)) = Some (rc, w1) \<and>
    rc \<noteq> 0 \<longrightarrow>
      preview_stop (state w1) = 1 \<and> worker_loop (e # es) w = Exited (worker_end w1) \<and>
      (\<exists>b\<in>set (queued (camera_returns (camera e) (send_empty_buffers (send_status e) w))).
          rc = upd_rc (draw_outcome e (addr b)) \<or> rc = redraw_rc (draw_outcome e (addr b))))
   \<and> sans_trace (raspitex_draw (x\<lparr>swap_ok := s\<rparr>) bo w) = sans_trace (raspitex_draw x bo w)
   \<and> (is_ready (state w) \<noteq> 0 \<and> upd_rc x \<noteq> 0 \<longrightarrow>
        map_option fst (raspitex_draw x (Some buf) w) = Some (upd_rc x))
   \<and> (frame_drawn x w \<and> redraw_rc x \<noteq> 0 \<longrightarrow>
        map_option fst (raspitex_draw x (Some buf) w) = Some (redraw_rc x))
   \<and> (preview_stop (state w) = 0 \<and>
       preview_stop (state (camera_returns (camera e) (send_empty_buffers (send_status e) w))) = 0 \<and>
       f \<in> set (queued (camera_returns (camera e) (send_empty_buffers (send_status e) w))) \<and>
       draw_fails (draw_outcome e (addr f))
         (camera_returns (camera e) (send_empty_buffers (send_status e) w)) \<longrightarrow>
        (\<exists>c w2. preview_process_returned_bufs (draw_outcome e)
                   (camera_returns (camera e) (send_empty_buffers (send_status e) w)) = Some (c, w2)
               \<and> c \<noteq> 0 \<and> preview_stop (state w2) = 1
               \<and> worker_loop (e # es) w = Exited (worker_end w2)))"
proof -
  have bwd: "preview_stop (state w1) = 1 \<and> worker_loop (e # es) w = Exited (worker_end w1) \<and>
      (\<exists>b\<in>set (queued (camera_returns (camera e) (send_empty_buffers (send_status e) w))).
          rc = upd_rc (draw_outcome e (addr b)) \<or> rc = redraw_rc (draw_outcome e (addr b)))"
    if "preview_stop (state w) = 0 \<and>
        preview_process_returned_bufs (draw_outcome e)
          (camera_returns (camera e) (send_empty_buffers (send_status e) w)) = Some (rc, w1) \<and>
        rc \<noteq> 0"
    using that process_failure [of "draw_outcome e"
          "camera_returns (camera e) (send_empty_buffers (send_status e) w)" rc w1]
        failed_iteration_exits [of w e rc w1 es]
    by blast
  have sw: "sans_trace (raspitex_draw (x\<lparr>swap_ok := s\<rparr>) bo w) = sans_trace (raspitex_draw x bo w)"
    by (rule swap_result_unused)
  have up: "map_option fst (raspitex_draw x (Some buf) w) = Some (upd_rc x)"
    if "is_ready (state w) \<noteq> 0 \<and> upd_rc x \<noteq> 0"
    using that failed_update_code [of w x buf] by blast
  have rd: "map_option fst (raspitex_draw x (Some buf) w) = Some (redraw_rc x)"
    if "frame_drawn x w \<and> redraw_rc x \<noteq> 0"
    using that failed_redraw_code [of x w buf] by blast
  have fwd: "\<exists>c w2. preview_process_returned_bufs (draw_outcome e)
                   (camera_returns (camera e) (send_empty_buffers (send_status e) w)) = Some (c, w2)
               \<and> c \<noteq> 0 \<and> preview_stop (state w2) = 1
               \<and> worker_loop (e # es) w = Exited (worker_end w2)"
    if "preview_stop (state w) = 0 \<and>
       preview_stop (state (camera_returns (camera e) (send_empty_buffers (send_status e) w))) = 0 \<and>
       f \<in> set (queued (camera_returns (camera e) (send_empty_buffers (send_status e) w))) \<and>
       draw_fails (draw_outcome e (addr f))
         (camera_returns (camera e) (send_empty_buffers (send_status e) w))"
    using that failing_frame_stops_worker [of w e f es] by blast
  from bwd sw up rd fwd show ?thesis by blast
qed

text \<open>
  Witness for C5: a bind that fails with code -1 and a redraw that fails with code -2; in
  both runs the worker exits.
\<close>

theorem draw_failure_is_fatal_witness:
  "preview_stop (state two_buffers) = 0
   \<and> map_option fst (preview_process_returned_bufs bind_fails
        (camera_returns [deliver 0 1000] (send_empty_buffers all_sent two_buffers))) = Some (- 1)
   \<and> exited (worker_loop [idle_iteration\<lparr>camera := [deliver 0 1000], draw_outcome := bind_fails\<rparr>]
        two_buffers)
   \<and> map (addr) (queued (camera_returns [deliver 0 1000] (send_empty_buffers all_sent two_buffers))) = [1]
   \<and> draw_fails (redraw_fails 1)
        (camera_returns [deliver 0 1000] (send_empty_buffers all_sent two_buffers))
   \<and> exited (worker_loop [idle_iteration\<lparr>camera := [deliver 0 1000], draw_outcome := redraw_fails\<rparr>]
        two_buffers)
   \<and> map_option fst (raspitex_draw (redraw_fails 1) (Some (frame 1 1000)) (start_world [])) = Some (- 2)
   \<and> map_option fst (raspitex_draw (bind_fails 1) (Some (frame 1 1000)) (start_world [])) = Some (- 1)"
proof -
  let ?e = "idle_iteration\<lparr>camera := [deliver 0 1000], draw_outcome := bind_fails\<rparr>"
  let ?r = "idle_iteration\<lparr>camera := [deliver 0 1000], draw_outcome := redraw_fails\<rparr>"
  let ?w0 = "camera_returns [deliver 0 1000] (send_empty_buffers all_sent two_buffers)"
  have s: "preview_stop (state two_buffers) = 0"
    by (simp add: scenario_defs example_defs)
  have "\<exists>w1. preview_process_returned_bufs bind_fails ?w0 = Some (- 1, w1)"
    by (simp add: scenario_defs example_defs run_defs loop_eqs)
  then obtain w1 where p: "preview_process_returned_bufs bind_fails ?w0 = Some (- 1, w1)"
    by blast
  have p': "preview_process_returned_bufs (draw_outcome ?e)
        (camera_returns (camera ?e) (send_empty_buffers (send_status ?e) two_buffers)) = Some (- 1, w1)"
    using p by (simp add: idle_iteration_def)
  have n: "(- 1::int) \<noteq> 0" by simp
  note bwd = draw_failure_is_fatal [where w = two_buffers and e = ?e and rc = "- 1" and ?w1.0 = w1
      and es = "[]", THEN conjunct1, THEN mp, OF conjI [OF s conjI [OF p' n]]]
  have a: "exited (worker_loop [?e] two_buffers)"
    using bwd by simp
  have "\<exists>fr. queued ?w0 = [fr] \<and> addr fr = 1"
    by (simp add: scenario_defs example_defs run_defs loop_eqs)
  then obtain fr where q: "queued ?w0 = [fr]" and fa: "addr fr = 1"
    by blast
  have s0: "preview_stop (state ?w0) = 0"
    by (simp add: scenario_defs example_defs run_defs loop_eqs)
  have df: "draw_fails (redraw_fails 1) ?w0"
    by (simp add: draw_fails_def frame_drawn_def scenario_defs example_defs run_defs loop_eqs)
  have hyp: "preview_stop (state two_buffers) = 0 \<and>
       preview_stop (state (camera_returns (camera ?r) (send_empty_buffers (send_status ?r) two_buffers))) = 0 \<and>
       fr \<in> set (queued (camera_returns (camera ?r) (send_empty_buffers (send_status ?r) two_buffers))) \<and>
       draw_fails (draw_outcome ?r (addr fr))
         (camera_returns (camera ?r) (send_empty_buffers (send_status ?r) two_buffers))"
    using s s0 q fa df by (simp add: idle_iteration_def)
  note fwd = draw_failure_is_fatal [where w = two_buffers and e = ?r and f = fr and es = "[]",
      THEN conjunct2, THEN conjunct2, THEN conjunct2, THEN conjunct2, THEN mp, OF hyp]
  have b: "exited (worker_loop [?r] two_buffers)"
    using fwd by auto
  have fd: "frame_drawn (redraw_fails 1) (start_world []) \<and> redraw_rc (redraw_fails 1) \<noteq> 0"
    by (simp add: frame_drawn_def example_defs)
  note c = draw_failure_is_fatal [where w = "start_world []" and x = "redraw_fails 1"
      and buf = "frame 1 1000", THEN conjunct2, THEN conjunct2, THEN conjunct2, THEN conjunct1, THEN mp, OF fd]
  have bd: "is_ready (state (start_world [])) \<noteq> 0 \<and> upd_rc (bind_fails 1) \<noteq> 0"
    by (simp add: example_defs)
  note d = draw_failure_is_fatal [where w = "start_world []" and x = "bind_fails 1"
      and buf = "frame 1 1000", THEN conjunct2, THEN conjunct2, THEN conjunct1, THEN mp, OF bd]
  have c': "map_option fst (raspitex_draw (redraw_fails 1) (Some (frame 1 1000)) (start_world [])) = Some (- 2)"
    using c by (simp add: redraw_fails_def draw_fine_def)
  have d': "map_option fst (raspitex_draw (bind_fails 1) (Some (frame 1 1000)) (start_world [])) = Some (- 1)"
    using d by (simp add: bind_fails_def draw_fine_def)
  have p1: "map_option fst (preview_process_returned_bufs bind_fails ?w0) = Some (- 1)"
    using p by simp
  have qa: "map addr (queued ?w0) = [1]" using q fa by simp
  from s p1 a qa df b c' d' show ?thesis by blast
qed

subsection \<open>C6: frame times\<close>

text \<open>
  Counterexample to C6 (a time stamp smaller than the previous one gives a non-negative
  interval): after the frames with time stamps 1000, 2000 and 1500 the current time is 3/2,
  the previous time is 2, and the interval between them is -1/2.
\<close>

theorem wraparound_interval_is_negative:
  "map_option curr_buff_time (final_state (preview_process_returned_bufs all_fine three_frames)) = Some (3 / 2)
   \<and> map_option prev_buff_time (final_state (preview_process_returned_bufs all_fine three_frames)) = Some 2
   \<and> map_option frame_interval (final_state (preview_process_returned_bufs all_fine three_frames)) = Some (- 1 / 2)"
  by (simp add: scenario_defs example_defs run_defs loop_eqs frame_interval_def)

text \<open>
  C6, amended. For every frame that is drawn, the current time is the absolute value of
  the time stamp \<open>pts\<close> divided by 1000, so it is never negative, and the previous time is
  the current time of the frame before. The correction looks at the sign of the time stamp
  only, not at the difference to the previous frame.
\<close>

theorem frame_times:
  assumes "frame_drawn x w" and "raspitex_draw x (Some buf) w = Some (rc, w')"
  shows "curr_buff_time (state w') = \<bar>real_of_int (pts buf) / 1000\<bar>
       \<and> 0 \<le> curr_buff_time (state w')
       \<and> prev_buff_time (state w') = curr_buff_time (state w)"
  using assms
  by (auto simp: frame_drawn_def raspitex_draw_def Let_def check_egl_image_def sign_correct_abs
        raspitexutil_update_texture_def mmal_buffer_header_release_def
        split: if_splits option.splits)

text \<open>
Witness for C6: a frame with the time stamp -1500 gets the time 3/2.
\<close>

theorem frame_times_witness:
  "frame_drawn draw_fine (start_world [])
   \<and> map_option curr_buff_time
        (final_state (raspitex_draw draw_fine (Some (frame 3 (- 1500))) (start_world []))) = Some (3 / 2)
   \<and> map_option prev_buff_time
        (final_state (raspitex_draw draw_fine (Some (frame 3 (- 1500))) (start_world []))) = Some 0"
proof -
  let ?r = "raspitex_draw draw_fine (Some (frame 3 (- 1500))) (start_world [])"
  have d: "frame_drawn draw_fine (start_world [])"
    by (simp add: frame_drawn_def example_defs)
  obtain rc w' where r: "?r = Some (rc, w')"
    using raspitex_draw_Some by blast
  from frame_times [OF d r] d r show ?thesis
    by (simp add: final_state_def example_defs)
qed

subsection \<open>C7: raspitex_stop\<close>

text \<open>
  Counterexample to C7 (raspitex_stop always waits for the worker): after the callback has
  seen the end of the stream the stop flag is set, and raspitex_stop returns without
  joining the worker thread.
\<close>

theorem stop_after_end_of_stream_skips_join:
  "preview_stop (state (preview_output_cb noon (buffer_at 1) (start_world []))) = 1
   \<and> Join \<notin> set (snd (raspitex_stop (state (preview_output_cb noon (buffer_at 1) (start_world [])))))"
  by (simp add: preview_output_cb_def buffer_at_def start_world_def ready_state_def
        mmal_buffer_header_release_def raspitex_stop_def)

text \<open>
  C7, amended. After raspitex_stop the stop flag is set. It joins the worker thread exactly
  when the flag was clear on entry; when the flag was already set (by an earlier
  raspitex_stop, by the callback at the end of the stream or by the worker after an error)
  it does nothing. A second call changes nothing and joins nothing.
\<close>

theorem stop_joins_only_when_flag_clear:
  "preview_stop (fst (raspitex_stop s)) \<noteq> 0
   \<and> snd (raspitex_stop s) = (if preview_stop s = 0 then [Join] else [])
   \<and> raspitex_stop (fst (raspitex_stop s)) = (fst (raspitex_stop s), [])"
  by (simp add: raspitex_stop_def)

text \<open>
Witness for C7: the first call joins, the second does not.
\<close>

theorem stop_joins_only_when_flag_clear_witness:
  "snd (raspitex_stop ready_state) = [Join]
   \<and> raspitex_stop (fst (raspitex_stop ready_state)) = (ready_state\<lparr>preview_stop := 1\<rparr>, [])"
  using stop_joins_only_when_flag_clear [of ready_state]
  by (simp add: ready_state_def raspitex_stop_def)

subsection \<open>C8: the yield\<close>

text \<open>
  Counterexample to C8 (an iteration that finds the queue empty yields): three iterations
  in which nothing arrives; the worker is still running and its trace holds the two sends
  of the first refill and no yield.
\<close>

theorem idle_iterations_never_yield:
  "\<not> exited idle_run
   \<and> map_option queued (outcome_world idle_run) = Some []
   \<and> map_option trace (outcome_world idle_run) = Some [Send 1 0, Send 2 0]
   \<and> count_list [Send 1 0, Send 2 0] Yield = 0"
  by (simp add: scenario_defs example_defs run_defs loop_eqs)

text \<open>
  C8, amended. The yield of line 199 is inside the loop over the queue: the worker yields
  once after each buffer that it has dequeued, except after a draw that failed. With an
  empty queue the processing does nothing, and an iteration of the worker in which the
  queue is empty and nothing arrives performs no yield.
\<close>

theorem yield_follows_each_buffer:
  "(queued w = [] \<longrightarrow> preview_process_returned_bufs dx w = Some (0, w))
   \<and> (preview_process_returned_bufs dx w = Some (rc, w') \<longrightarrow>
        count_list (trace w') Yield + (if rc = 0 then 0 else 1) + length (queued w') =
        count_list (trace w) Yield + length (queued w))
   \<and> (queued w = [] \<and> camera e = [] \<and> worker_iteration e w = Some w2 \<longrightarrow>
        count_list (trace w2) Yield = count_list (trace w) Yield)"
  using process_Nil [of w dx] process_yields [of dx w rc w'] idle_iteration_no_yield [of w e w2]
  by blast

text \<open>
Witness for C8: three frames give three yields, an empty queue gives none.
\<close>

theorem yield_follows_each_buffer_witness:
  "map_option fst (preview_process_returned_bufs all_fine three_frames) = Some 0
   \<and> map_option ((\<lambda>t. count_list t Yield) \<circ> trace \<circ> snd)
        (preview_process_returned_bufs all_fine three_frames) = Some 3
   \<and> preview_process_returned_bufs all_fine (start_world []) = Some (0, start_world [])"
proof -
  have "\<exists>w'. preview_process_returned_bufs all_fine three_frames = Some (0, w') \<and> queued w' = []"
    by (simp add: scenario_defs example_defs run_defs loop_eqs)
  then obtain w' where p: "preview_process_returned_bufs all_fine three_frames = Some (0, w')"
    and q: "queued w' = []"
    by blast
  have e: "queued (start_world []) = []" by (simp add: start_world_def)
  note a = yield_follows_each_buffer [of three_frames all_fine 0 w', THEN conjunct2, THEN conjunct1,
      THEN mp, OF p]
  note b = yield_follows_each_buffer [of "start_world []" all_fine, THEN conjunct1, THEN mp, OF e]
  have "count_list (trace w') Yield = 3"
    using a q by (simp add: three_frames_def start_world_def)
  with p b show ?thesis by simp
qed

subsection \<open>C9: what the queue holds\<close>




subsection \<open>C10: raspitex_destroy twice\<close>

text \<open>
  C10. After raspitex_destroy the pool and queue handles are NULL, and a second
  raspitex_destroy destroys neither a pool nor a queue and leaves the two handles as they
  are. raspitexutil_destroy_native_window is taken not to write the two handles.
\<close>

theorem destroy_twice:
  assumes dnw: "\<And>t. preview_pool (dnw t) = preview_pool t \<and> preview_queue (dnw t) = preview_queue t"
    and first: "raspitex_destroy dnw s = (s1, e1)"
    and second: "raspitex_destroy dnw s1 = (s2, e2)"
  shows "preview_pool s1 = 0 \<and> preview_queue s1 = 0
       \<and> (\<forall>h. PoolDestroy h \<notin> set e2 \<and> QueueDestroy h \<notin> set e2)
       \<and> preview_pool s2 = preview_pool s1 \<and> preview_queue s2 = preview_queue s1"
proof -
  have a: "preview_pool s1 = 0 \<and> preview_queue s1 = 0"
    using first dnw by (auto simp: raspitex_destroy_def Let_def split: if_splits)
  with second dnw show ?thesis
    by (auto simp: raspitex_destroy_def Let_def split: if_splits)
qed

text \<open>
Witness for C10: a state with both handles set and the window ready.
\<close>

theorem destroy_twice_witness:
  "raspitex_destroy (\<lambda>t. t\<lparr>is_ready := 0\<rparr>) ready_state =
      (ready_state\<lparr>preview_pool := 0, preview_queue := 0, is_ready := 0\<rparr>,
       [PoolDestroy 1, QueueDestroy 2, NativeWindowDestroy])
   \<and> raspitex_destroy (\<lambda>t. t\<lparr>is_ready := 0\<rparr>)
        (ready_state\<lparr>preview_pool := 0, preview_queue := 0, is_ready := 0\<rparr>) =
      (ready_state\<lparr>preview_pool := 0, preview_queue := 0, is_ready := 0\<rparr>, [])
   \<and> preview_pool (ready_state\<lparr>preview_pool := 0, preview_queue := 0, is_ready := 0\<rparr>) = 0"
proof -
  have 1: "raspitex_destroy (\<lambda>t. t\<lparr>is_ready := 0\<rparr>) ready_state =
      (ready_state\<lparr>preview_pool := 0, preview_queue := 0, is_ready := 0\<rparr>,
       [PoolDestroy 1, QueueDestroy 2, NativeWindowDestroy])"
    by (simp add: raspitex_destroy_def ready_state_def)
  have 2: "raspitex_destroy (\<lambda>t. t\<lparr>is_ready := 0\<rparr>)
        (ready_state\<lparr>preview_pool := 0, preview_queue := 0, is_ready := 0\<rparr>) =
      (ready_state\<lparr>preview_pool := 0, preview_queue := 0, is_ready := 0\<rparr>, [])"
    by (simp add: raspitex_destroy_def ready_state_def)
  have 3: "\<And>t. preview_pool (t\<lparr>is_ready := 0\<rparr>) = preview_pool t
              \<and> preview_queue (t\<lparr>is_ready := 0\<rparr>) = preview_queue t"
    by simp
  from destroy_twice [of "\<lambda>t. t\<lparr>is_ready := 0\<rparr>", OF 3 1 2] 1 2 show ?thesis by simp
qed

end
